theory Spec2Isabelle
  imports Main "HOL-Library.Word" "HOL-Library.Sublist"
begin

section \<open>Go runtime and standard library, as far as the parser uses them\<close>

text \<open>
  A Go string is a sequence of bytes; \<^typ>\<open>string\<close> is a list of 8-bit characters.
  The three characters that cannot be written inside a string literal are named here.
\<close>

abbreviation DQ :: char where "DQ \<equiv> CHR 0x22"
abbreviation SQ :: char where "SQ \<equiv> CHR 0x27"
abbreviation BS :: char where "BS \<equiv> CHR 0x5C"
abbreviation NL :: char where "NL \<equiv> CHR 0x0A"
abbreviation TAB :: char where "TAB \<equiv> CHR 0x09"

text \<open>
  Failures. An \<open>error\<close> value of the source is a \<open>message\<close>; \<open>errors.New\<close> gives
  \<open>Text\<close>, the \<open>fmt.Sprintf\<close> messages of the tree builder keep their argument,
  \<open>strconv\<close>'s \<open>NumError\<close> keeps function name, input and kind, and \<open>errf\<close> wraps a
  message with the line number (\<open>toml:<line>: <msg>\<close>). A run-time panic (index or slice
  bounds out of range, failed type assertion) is a failure of its own.
\<close>

datatype message =
    Text string
  | KeyNotTable string
  | KeyNotArray string
  | DuplicateKey string
  | NumError string string string
  | At nat message

datatype failure = Err message | Panic string

subsection \<open>Package strings\<close>

definition strings_HasPrefix :: "string \<Rightarrow> string \<Rightarrow> bool" where
  "strings_HasPrefix s p = (take (length p) s = p)"

definition strings_HasSuffix :: "string \<Rightarrow> string \<Rightarrow> bool" where
  "strings_HasSuffix s p = (length p \<le> length s \<and> drop (length s - length p) s = p)"

text \<open>\<open>strings.Index\<close>: the position of the first occurrence, \<open>None\<close> for Go's \<open>-1\<close>.\<close>

fun strings_Index :: "string \<Rightarrow> string \<Rightarrow> nat option" where
  "strings_Index [] sub = (if sub = [] then Some 0 else None)"
| "strings_Index (c # s) sub =
     (if strings_HasPrefix (c # s) sub then Some 0
      else map_option Suc (strings_Index s sub))"

definition strings_Contains :: "string \<Rightarrow> string \<Rightarrow> bool" where
  "strings_Contains s sub = (strings_Index s sub \<noteq> None)"

text \<open>\<open>strings.ReplaceAll(s, "_", "")\<close>, the only use of \<open>ReplaceAll\<close> in the parser.\<close>

definition strings_ReplaceAll_underscore :: "string \<Rightarrow> string" where
  "strings_ReplaceAll_underscore s = filter (\<lambda>c. c \<noteq> CHR ''_'') s"

text \<open>
  \<open>strings.TrimSpace\<close> removes leading and trailing white space as Unicode defines it
  (\<open>unicode.IsSpace\<close>). On the bytes of a UTF-8 string these are the six ASCII space
  characters and the encodings of U+0085, U+00A0, U+1680, U+2000 to U+200A, U+2028,
  U+2029, U+202F, U+205F and U+3000.
\<close>

definition spaceRunes :: "string list" where
  "spaceRunes =
    [[CHR 0x09], [CHR 0x0A], [CHR 0x0B], [CHR 0x0C], [CHR 0x0D], [CHR 0x20],
     [CHR 0xC2, CHR 0x85], [CHR 0xC2, CHR 0xA0], [CHR 0xE1, CHR 0x9A, CHR 0x80],
     [CHR 0xE2, CHR 0x80, CHR 0x80], [CHR 0xE2, CHR 0x80, CHR 0x81],
     [CHR 0xE2, CHR 0x80, CHR 0x82], [CHR 0xE2, CHR 0x80, CHR 0x83],
     [CHR 0xE2, CHR 0x80, CHR 0x84], [CHR 0xE2, CHR 0x80, CHR 0x85],
     [CHR 0xE2, CHR 0x80, CHR 0x86], [CHR 0xE2, CHR 0x80, CHR 0x87],
     [CHR 0xE2, CHR 0x80, CHR 0x88], [CHR 0xE2, CHR 0x80, CHR 0x89],
     [CHR 0xE2, CHR 0x80, CHR 0x8A], [CHR 0xE2, CHR 0x80, CHR 0xA8],
     [CHR 0xE2, CHR 0x80, CHR 0xA9], [CHR 0xE2, CHR 0x80, CHR 0xAF],
     [CHR 0xE2, CHR 0x81, CHR 0x9F], [CHR 0xE3, CHR 0x80, CHR 0x80]]"

text \<open>The number of bytes of the white-space rune that \<open>s\<close> starts with, \<open>0\<close> if none.\<close>

definition leadingRune :: "string list \<Rightarrow> string \<Rightarrow> nat" where
  "leadingRune runes s =
     (case find (\<lambda>q. q \<noteq> [] \<and> strings_HasPrefix s q) runes of
        None \<Rightarrow> 0 | Some q \<Rightarrow> length q)"

lemma leadingRune_le: "leadingRune runes s \<le> length s"
proof (cases "find (\<lambda>q. q \<noteq> [] \<and> strings_HasPrefix s q) runes")
  case None
  then show ?thesis by (simp add: leadingRune_def)
next
  case (Some q)
  then have "strings_HasPrefix s q" by (auto simp: find_Some_iff)
  then have "length q \<le> length s"
    by (metis strings_HasPrefix_def length_take min.cobounded1)
  with Some show ?thesis by (simp add: leadingRune_def)
qed

function trimLeading :: "string list \<Rightarrow> string \<Rightarrow> string" where
  "trimLeading runes s =
     (if leadingRune runes s = 0 then s else trimLeading runes (drop (leadingRune runes s) s))"
  by pat_completeness auto
termination
proof (relation "measure (\<lambda>(runes, s). length s)")
  show "wf (measure (\<lambda>(runes, s). length s))" by simp
next
  fix runes :: "string list" and s :: string
  assume "leadingRune runes s \<noteq> 0"
  moreover have "leadingRune runes s \<le> length s" by (rule leadingRune_le)
  ultimately show "((runes, drop (leadingRune runes s) s), (runes, s)) \<in> measure (\<lambda>(runes, s). length s)"
    by simp
qed

declare trimLeading.simps [simp del]

definition strings_TrimSpace :: "string \<Rightarrow> string" where
  "strings_TrimSpace s =
     rev (trimLeading (map rev spaceRunes) (rev (trimLeading spaceRunes s)))"

text \<open>\<open>strings.EqualFold(s, "nan")\<close>: the letters \<open>n\<close> and \<open>a\<close> fold only with \<open>N\<close> and \<open>A\<close>.\<close>

definition strings_EqualFold_nan :: "string \<Rightarrow> bool" where
  "strings_EqualFold_nan s =
     (case s of
        [a, b, c] \<Rightarrow> (a = CHR ''n'' \<or> a = CHR ''N'') \<and> (b = CHR ''a'' \<or> b = CHR ''A'')
                      \<and> (c = CHR ''n'' \<or> c = CHR ''N'')
      | _ \<Rightarrow> False)"

subsection \<open>Package strconv\<close>

text \<open>
  \<open>strconv.ParseUint(s, base, bitSize)\<close> for an explicit base from 2 to 36 (the parser
  passes 16, 8 and 2, and 10 through \<open>ParseInt\<close>): no prefix and no underscore is
  accepted. The accumulator is a 64-bit unsigned integer; the two overflow tests of the
  library are written out on \<^typ>\<open>int\<close> with the wrap-around of \<open>n + d\<close> modulo \<open>2 ^ 64\<close>.
\<close>

definition digitVal :: "char \<Rightarrow> int option" where
  "digitVal c =
     (let n = (of_char c :: int) in
      if 48 \<le> n \<and> n \<le> 57 then Some (n - 48)
      else if 97 \<le> n \<and> n \<le> 122 then Some (n - 97 + 10)
      else if 65 \<le> n \<and> n \<le> 90 then Some (n - 65 + 10)
      else None)"

definition maxUint64 :: int where
  "maxUint64 = 18446744073709551615"

datatype numerr = ErrSyntax | ErrRange

fun parseUint_loop :: "int \<Rightarrow> int \<Rightarrow> string \<Rightarrow> int \<Rightarrow> numerr + int" where
  "parseUint_loop base maxVal [] n = Inr n"
| "parseUint_loop base maxVal (c # s) n =
     (case digitVal c of
        None \<Rightarrow> Inl ErrSyntax
      | Some d \<Rightarrow>
          if d \<ge> base then Inl ErrSyntax
          else if n \<ge> maxUint64 div base + 1 then Inl ErrRange
          else
            let n0 = n * base; n1 = (n0 + d) mod (maxUint64 + 1) in
            if n1 < n0 \<or> n1 > maxVal then Inl ErrRange
            else parseUint_loop base maxVal s n1)"

definition strconv_ParseUint :: "string \<Rightarrow> int \<Rightarrow> nat \<Rightarrow> numerr + int" where
  "strconv_ParseUint s base bitSize =
     (if s = [] then Inl ErrSyntax
      else parseUint_loop base (2 ^ bitSize - 1) s 0)"

text \<open>
  \<open>strconv.ParseInt(s, 10, 64)\<close>: an optional sign, then \<open>ParseUint\<close>; the magnitude
  must fit the signed range. The result is the 64-bit two's-complement integer.
\<close>

definition strconv_ParseInt10 :: "string \<Rightarrow> numerr + 64 word" where
  "strconv_ParseInt10 s0 =
     (if s0 = [] then Inl ErrSyntax
      else
        let neg = (hd s0 = CHR ''-'');
            s = (if hd s0 = CHR ''+'' \<or> hd s0 = CHR ''-'' then tl s0 else s0)
        in case strconv_ParseUint s 10 64 of
             Inl e \<Rightarrow> Inl e
           | Inr un \<Rightarrow>
               if \<not> neg \<and> un \<ge> 9223372036854775808 then Inl ErrRange
               else if neg \<and> un > 9223372036854775808 then Inl ErrRange
               else Inr (if neg then - word_of_int un else word_of_int un))"

definition numError :: "string \<Rightarrow> string \<Rightarrow> numerr \<Rightarrow> failure" where
  "numError fn s e =
     Err (NumError fn s (case e of ErrSyntax \<Rightarrow> ''invalid syntax''
                                 | ErrRange \<Rightarrow> ''value out of range''))"

section \<open>Utilities of the parser\<close>

subsection \<open>parseIntToken\<close>

text \<open>
  The three prefixed branches of the source differ only in the prefix and the base.
  \<open>signedPrefixed s p\<close> is the test
  \<open>HasPrefix(s, p) || HasPrefix(s, "-"+p) || HasPrefix(s, "+"+p)\<close>, and
  \<open>parsePrefixed\<close> the body of the branch: \<open>int64(v) * sign\<close> is computed on 64-bit
  words and wraps.
\<close>

definition signedPrefixed :: "string \<Rightarrow> string \<Rightarrow> bool" where
  "signedPrefixed s p =
     (strings_HasPrefix s p \<or> strings_HasPrefix s (CHR ''-'' # p)
      \<or> strings_HasPrefix s (CHR ''+'' # p))"

definition parsePrefixed :: "string \<Rightarrow> int \<Rightarrow> failure + 64 word" where
  "parsePrefixed s0 base =
     (let sign = (if strings_HasPrefix s0 ''-'' then - 1 else 1 :: 64 word);
          s1 = (if strings_HasPrefix s0 ''-'' then drop 1 s0 else s0);
          s2 = (if strings_HasPrefix s1 ''+'' then drop 1 s1 else s1)
      in case strconv_ParseUint (drop 2 s2) base 64 of
           Inl e \<Rightarrow> Inl (numError ''ParseUint'' (drop 2 s2) e)
         | Inr v \<Rightarrow> Inr (word_of_int v * sign))"

definition parseIntToken :: "string \<Rightarrow> failure + 64 word" where
  "parseIntToken s0 =
     (let s = strings_ReplaceAll_underscore s0 in
      if signedPrefixed s ''0x'' then parsePrefixed s 16
      else if signedPrefixed s ''0o'' then parsePrefixed s 8
      else if signedPrefixed s ''0b'' then parsePrefixed s 2
      else case strconv_ParseInt10 s of
             Inl e \<Rightarrow> Inl (numError ''ParseInt'' s e)
           | Inr i \<Rightarrow> Inr i)"

subsection \<open>parseKeyParts\<close>

text \<open>
  The loop over the bytes of the key expression, with the local variables of the source
  as arguments: the segments so far, the builder \<open>cur\<close>, \<open>inQuote\<close> (the byte \<open>0\<close> outside
  a quote) and \<open>escape\<close>.
\<close>

fun parseKeyParts_loop ::
  "string \<Rightarrow> string list \<Rightarrow> string \<Rightarrow> char \<Rightarrow> bool \<Rightarrow> failure + string list" where
  "parseKeyParts_loop [] parts cur inQuote escape =
     (if inQuote \<noteq> CHR 0x00 then Inl (Err (Text ''unterminated quoted key''))
      else
        let last = strings_TrimSpace cur in
        Inr (if last \<noteq> [] then parts @ [last] else parts))"
| "parseKeyParts_loop (ch # s) parts cur inQuote escape =
     (if inQuote \<noteq> CHR 0x00 then
        (if inQuote = DQ \<and> ch = BS \<and> \<not> escape then parseKeyParts_loop s parts cur inQuote True
         else if escape then parseKeyParts_loop s parts (cur @ [ch]) inQuote False
         else if ch = inQuote then parseKeyParts_loop s parts cur (CHR 0x00) escape
         else parseKeyParts_loop s parts (cur @ [ch]) inQuote escape)
      else if ch = DQ \<or> ch = SQ then
        (if cur \<noteq> [] \<and> strings_TrimSpace cur \<noteq> [] then
           Inl (Err (Text ''invalid quoted key position''))
         else parseKeyParts_loop s parts [] ch escape)
      else if ch = CHR ''.'' then
        (let part = strings_TrimSpace cur in
         parseKeyParts_loop s (if part \<noteq> [] then parts @ [part] else parts) [] inQuote escape)
      else parseKeyParts_loop s parts (cur @ [ch]) inQuote escape)"

definition parseKeyParts :: "string \<Rightarrow> failure + string list" where
  "parseKeyParts s = parseKeyParts_loop s [] [] (CHR 0x00) False"

subsection \<open>The quote-aware scanners\<close>

text \<open>
  Four loops of the source walk a string with the same four flags (\<open>inBasic\<close>,
  \<open>inLiteral\<close>, \<open>basicMulti\<close>, \<open>literalMulti\<close>) and jump over an escaped byte (\<open>i++\<close>) or
  over a triple quote (\<open>i += 2\<close>). Each is a recursion on the rest of the string
  \<open>s[i:]\<close>; the test \<open>i+2 < len(s) && s[i] == q && s[i+1] == q && s[i+2] == q\<close> is
  \<open>tripleAt q\<close> of that rest.
\<close>

definition tripleAt :: "char \<Rightarrow> string \<Rightarrow> bool" where
  "tripleAt q s = (case s of a # b # c # _ \<Rightarrow> a = q \<and> b = q \<and> c = q | _ \<Rightarrow> False)"

function stripComment_loop :: "string \<Rightarrow> bool \<Rightarrow> bool \<Rightarrow> bool \<Rightarrow> bool \<Rightarrow> string" where
  "stripComment_loop [] inBasic inLiteral basicMulti literalMulti = []"
| "stripComment_loop (ch # s) inBasic inLiteral basicMulti literalMulti =
     (if inBasic then
        (if ch = BS \<and> s \<noteq> [] then
           ch # hd s # stripComment_loop (tl s) inBasic inLiteral basicMulti literalMulti
         else if basicMulti \<and> tripleAt DQ (ch # s) then
           DQ # DQ # DQ # stripComment_loop (drop 2 s) False inLiteral False literalMulti
         else if \<not> basicMulti \<and> ch = DQ then
           ch # stripComment_loop s False inLiteral basicMulti literalMulti
         else ch # stripComment_loop s inBasic inLiteral basicMulti literalMulti)
      else if inLiteral then
        (if literalMulti \<and> tripleAt SQ (ch # s) then
           SQ # SQ # SQ # stripComment_loop (drop 2 s) inBasic False basicMulti False
         else if \<not> literalMulti \<and> ch = SQ then
           ch # stripComment_loop s inBasic False basicMulti literalMulti
         else ch # stripComment_loop s inBasic inLiteral basicMulti literalMulti)
      else if ch = DQ then
        (if tripleAt DQ (ch # s) then
           DQ # DQ # DQ # stripComment_loop (drop 2 s) True inLiteral True literalMulti
         else ch # stripComment_loop s True inLiteral False literalMulti)
      else if ch = SQ then
        (if tripleAt SQ (ch # s) then
           SQ # SQ # SQ # stripComment_loop (drop 2 s) inBasic True basicMulti True
         else ch # stripComment_loop s inBasic True basicMulti False)
      else if ch = CHR ''#'' then []
      else ch # stripComment_loop s inBasic inLiteral basicMulti literalMulti)"
  by pat_completeness auto
termination
  by (relation "measure (\<lambda>(s, _). length s)") simp_all

definition stripCommentPreserveStrings :: "string \<Rightarrow> string" where
  "stripCommentPreserveStrings s = stripComment_loop s False False False False"

text \<open>\<open>findUnquotedEqual\<close>: the index \<open>i\<close> is carried along; \<open>None\<close> is Go's \<open>-1\<close>.\<close>

function findUnquotedEqual_loop ::
  "string \<Rightarrow> nat \<Rightarrow> bool \<Rightarrow> bool \<Rightarrow> bool \<Rightarrow> bool \<Rightarrow> nat option" where
  "findUnquotedEqual_loop [] i inBasic inLiteral basicMulti literalMulti = None"
| "findUnquotedEqual_loop (ch # s) i inBasic inLiteral basicMulti literalMulti =
     (if inBasic then
        (if ch = BS then
           findUnquotedEqual_loop (drop 1 s) (i + 2) inBasic inLiteral basicMulti literalMulti
         else if basicMulti then
           (if tripleAt DQ (ch # s) then
              findUnquotedEqual_loop (drop 2 s) (i + 3) False inLiteral False literalMulti
            else findUnquotedEqual_loop s (i + 1) inBasic inLiteral basicMulti literalMulti)
         else if ch = DQ then
           findUnquotedEqual_loop s (i + 1) False inLiteral basicMulti literalMulti
         else findUnquotedEqual_loop s (i + 1) inBasic inLiteral basicMulti literalMulti)
      else if inLiteral then
        (if literalMulti then
           (if tripleAt SQ (ch # s) then
              findUnquotedEqual_loop (drop 2 s) (i + 3) inBasic False basicMulti False
            else findUnquotedEqual_loop s (i + 1) inBasic inLiteral basicMulti literalMulti)
         else if ch = SQ then
           findUnquotedEqual_loop s (i + 1) inBasic False basicMulti literalMulti
         else findUnquotedEqual_loop s (i + 1) inBasic inLiteral basicMulti literalMulti)
      else if ch = DQ then
        (if tripleAt DQ (ch # s) then
           findUnquotedEqual_loop (drop 2 s) (i + 3) True inLiteral True literalMulti
         else findUnquotedEqual_loop s (i + 1) True inLiteral basicMulti literalMulti)
      else if ch = SQ then
        (if tripleAt SQ (ch # s) then
           findUnquotedEqual_loop (drop 2 s) (i + 3) inBasic True basicMulti True
         else findUnquotedEqual_loop s (i + 1) inBasic True basicMulti literalMulti)
      else if ch = CHR ''='' then Some i
      else findUnquotedEqual_loop s (i + 1) inBasic inLiteral basicMulti literalMulti)"
  by pat_completeness auto
termination
  by (relation "measure (\<lambda>(s, _). length s)") simp_all

definition findUnquotedEqual :: "string \<Rightarrow> nat option" where
  "findUnquotedEqual s = findUnquotedEqual_loop s 0 False False False False"

text \<open>
  The bracket-depth scan of \<open>consumeValue\<close>, which the source writes out twice (for the
  first line and for every continuation line) with the depth and the flags shared.
\<close>

type_synonym scanState = "int \<times> bool \<times> bool \<times> bool \<times> bool"

function scanDepth_loop ::
  "string \<Rightarrow> int \<Rightarrow> bool \<Rightarrow> bool \<Rightarrow> bool \<Rightarrow> bool \<Rightarrow> scanState" where
  "scanDepth_loop [] depth inBasic inLiteral basicMulti literalMulti =
     (depth, inBasic, inLiteral, basicMulti, literalMulti)"
| "scanDepth_loop (ch # s) depth inBasic inLiteral basicMulti literalMulti =
     (if inBasic then
        (if ch = BS then scanDepth_loop (drop 1 s) depth inBasic inLiteral basicMulti literalMulti
         else if basicMulti then
           (if tripleAt DQ (ch # s) then
              scanDepth_loop (drop 2 s) depth False inLiteral False literalMulti
            else scanDepth_loop s depth inBasic inLiteral basicMulti literalMulti)
         else if ch = DQ then scanDepth_loop s depth False inLiteral basicMulti literalMulti
         else scanDepth_loop s depth inBasic inLiteral basicMulti literalMulti)
      else if inLiteral then
        (if literalMulti then
           (if tripleAt SQ (ch # s) then
              scanDepth_loop (drop 2 s) depth inBasic False basicMulti False
            else scanDepth_loop s depth inBasic inLiteral basicMulti literalMulti)
         else if ch = SQ then scanDepth_loop s depth inBasic False basicMulti literalMulti
         else scanDepth_loop s depth inBasic inLiteral basicMulti literalMulti)
      else if ch = DQ then
        (if tripleAt DQ (ch # s) then
           scanDepth_loop (drop 2 s) depth True inLiteral True literalMulti
         else scanDepth_loop s depth True inLiteral basicMulti literalMulti)
      else if ch = SQ then
        (if tripleAt SQ (ch # s) then
           scanDepth_loop (drop 2 s) depth inBasic True basicMulti True
         else scanDepth_loop s depth inBasic True basicMulti literalMulti)
      else if ch = CHR ''['' \<or> ch = CHR ''{'' then
        scanDepth_loop s (depth + 1) inBasic inLiteral basicMulti literalMulti
      else if ch = CHR '']'' \<or> ch = CHR ''}'' then
        scanDepth_loop s (depth - 1) inBasic inLiteral basicMulti literalMulti
      else scanDepth_loop s depth inBasic inLiteral basicMulti literalMulti)"
  by pat_completeness auto
termination
  by (relation "measure (\<lambda>(s, _). length s)") simp_all

definition scanDepth :: "string \<Rightarrow> scanState \<Rightarrow> scanState" where
  "scanDepth s st =
     (case st of (depth, inBasic, inLiteral, basicMulti, literalMulti) \<Rightarrow>
        scanDepth_loop s depth inBasic inLiteral basicMulti literalMulti)"

text \<open>
  \<open>splitTopLevel\<close>, with \<open>parts\<close>, the builder \<open>cur\<close>, the two depths and the flags as
  arguments. A backslash that ends the string inside a basic string is dropped.
\<close>

function splitTopLevel_loop ::
  "string \<Rightarrow> char \<Rightarrow> string list \<Rightarrow> string \<Rightarrow> int \<Rightarrow> int \<Rightarrow> bool \<Rightarrow> bool \<Rightarrow> bool \<Rightarrow> bool
     \<Rightarrow> string list" where
  "splitTopLevel_loop [] sep parts cur depthB depthC inB inL bM lM =
     (if cur \<noteq> [] then parts @ [strings_TrimSpace cur] else parts)"
| "splitTopLevel_loop (ch # s) sep parts cur depthB depthC inB inL bM lM =
     (if inB then
        (if ch = BS then
           (case s of
              [] \<Rightarrow> splitTopLevel_loop [] sep parts cur depthB depthC inB inL bM lM
            | e # r \<Rightarrow> splitTopLevel_loop r sep parts (cur @ [BS, e]) depthB depthC inB inL bM lM)
         else if bM \<and> tripleAt DQ (ch # s) then
           splitTopLevel_loop (drop 2 s) sep parts (cur @ [DQ, DQ, DQ]) depthB depthC False inL False lM
         else if \<not> bM \<and> ch = DQ then
           splitTopLevel_loop s sep parts (cur @ [ch]) depthB depthC False inL bM lM
         else splitTopLevel_loop s sep parts (cur @ [ch]) depthB depthC inB inL bM lM)
      else if inL then
        (if lM \<and> tripleAt SQ (ch # s) then
           splitTopLevel_loop (drop 2 s) sep parts (cur @ [SQ, SQ, SQ]) depthB depthC inB False bM False
         else if \<not> lM \<and> ch = SQ then
           splitTopLevel_loop s sep parts (cur @ [ch]) depthB depthC inB False bM lM
         else splitTopLevel_loop s sep parts (cur @ [ch]) depthB depthC inB inL bM lM)
      else if ch = DQ then
        (if tripleAt DQ (ch # s) then
           splitTopLevel_loop (drop 2 s) sep parts (cur @ [DQ, DQ, DQ]) depthB depthC True inL True lM
         else splitTopLevel_loop s sep parts (cur @ [DQ]) depthB depthC True inL bM lM)
      else if ch = SQ then
        (if tripleAt SQ (ch # s) then
           splitTopLevel_loop (drop 2 s) sep parts (cur @ [SQ, SQ, SQ]) depthB depthC inB True bM True
         else splitTopLevel_loop s sep parts (cur @ [SQ]) depthB depthC inB True bM lM)
      else if ch = CHR ''['' then
        splitTopLevel_loop s sep parts (cur @ [ch]) (depthB + 1) depthC inB inL bM lM
      else if ch = CHR '']'' then
        splitTopLevel_loop s sep parts (cur @ [ch]) (depthB - 1) depthC inB inL bM lM
      else if ch = CHR ''{'' then
        splitTopLevel_loop s sep parts (cur @ [ch]) depthB (depthC + 1) inB inL bM lM
      else if ch = CHR ''}'' then
        splitTopLevel_loop s sep parts (cur @ [ch]) depthB (depthC - 1) inB inL bM lM
      else if depthB = 0 \<and> depthC = 0 \<and> ch = sep then
        splitTopLevel_loop s sep (parts @ [strings_TrimSpace cur]) [] depthB depthC inB inL bM lM
      else splitTopLevel_loop s sep parts (cur @ [ch]) depthB depthC inB inL bM lM)"
  by pat_completeness auto
termination
  by (relation "measure (\<lambda>(s, _). length s)") simp_all

definition splitTopLevel :: "string \<Rightarrow> char \<Rightarrow> string list" where
  "splitTopLevel s sep = splitTopLevel_loop s sep [] [] 0 0 False False False False"

subsection \<open>Quoted strings\<close>

definition extractTripleQuoted :: "string \<Rightarrow> char \<Rightarrow> string option" where
  "extractTripleQuoted s quote =
     (if length s < 6 then None
      else if quote = DQ \<and> \<not> strings_HasPrefix s [DQ, DQ, DQ] then None
      else if quote = SQ \<and> \<not> strings_HasPrefix s [SQ, SQ, SQ] then None
      else
        let end = (if quote = SQ then [SQ, SQ, SQ] else [DQ, DQ, DQ]) in
        case strings_Index (drop 3 s) end of
          None \<Rightarrow> None
        | Some idx \<Rightarrow>
            let content = take idx (drop 3 s) in
            Some (if content \<noteq> [] \<and> hd content = NL then tl content else content))"

definition extractSingleQuoted :: "string \<Rightarrow> char \<Rightarrow> string option" where
  "extractSingleQuoted s quote =
     (if length s < 2 \<or> hd s \<noteq> quote \<or> last s \<noteq> quote then None
      else Some (take (length s - 2) (drop 1 s)))"

text \<open>
  \<open>strings.Builder.WriteRune\<close> appends the UTF-8 encoding of a rune; a surrogate or a
  value beyond U+10FFFF (also a negative \<open>rune\<close>, whose \<open>uint32\<close> is that large) is
  written as U+FFFD. The argument is the \<open>uint32\<close> value of the rune.
\<close>

definition utf8_AppendRune :: "int \<Rightarrow> string" where
  "utf8_AppendRune v =
     (if v \<le> 0x7F then [char_of v]
      else if v \<le> 0x7FF then [char_of (0xC0 + v div 64), char_of (0x80 + v mod 64)]
      else if v > 0x10FFFF \<or> (0xD800 \<le> v \<and> v \<le> 0xDFFF) then [CHR 0xEF, CHR 0xBF, CHR 0xBD]
      else if v \<le> 0xFFFF then
        [char_of (0xE0 + v div 4096), char_of (0x80 + (v div 64) mod 64), char_of (0x80 + v mod 64)]
      else
        [char_of (0xF0 + v div 262144), char_of (0x80 + (v div 4096) mod 64),
         char_of (0x80 + (v div 64) mod 64), char_of (0x80 + v mod 64)])"

definition parseHexRune :: "string \<Rightarrow> failure + int" where
  "parseHexRune h =
     (case strconv_ParseUint h 16 32 of
        Inl e \<Rightarrow> Inl (numError ''ParseUint'' h e)
      | Inr v \<Rightarrow> Inr v)"

text \<open>The first loop of \<open>decodeBasicString\<close> (line folding, only when \<open>multiline\<close>).\<close>

function foldLines :: "string \<Rightarrow> string" where
  "foldLines [] = []"
| "foldLines (c # s) =
     (if c = BS \<and> s \<noteq> [] \<and> hd s = NL then
        foldLines (dropWhile (\<lambda>x. x = CHR '' '' \<or> x = TAB) (tl s))
      else c # foldLines s)"
  by pat_completeness auto
termination
proof (relation "measure length")
  show "wf (measure length)" by simp
next
  fix c :: char and s :: string
  assume "c = BS \<and> s \<noteq> [] \<and> hd s = NL"
  have "length (dropWhile (\<lambda>x. x = CHR '' '' \<or> x = TAB) (tl s)) \<le> length (tl s)"
    by (rule length_dropWhile_le)
  then show "(dropWhile (\<lambda>x. x = CHR '' '' \<or> x = TAB) (tl s), c # s) \<in> measure length"
    by simp
next
  fix c :: char and s :: string
  show "(s, c # s) \<in> measure length" by simp
qed

text \<open>The second loop: escape sequences, with the builder \<open>out\<close> as accumulator.\<close>

function unescape :: "string \<Rightarrow> string \<Rightarrow> failure + string" where
  "unescape [] out = Inr out"
| "unescape (ch # s) out =
     (if ch \<noteq> BS then unescape s (out @ [ch])
      else
        case s of
          [] \<Rightarrow> Inl (Err (Text ''invalid escape''))
        | e # r \<Rightarrow>
            if e = CHR ''b'' then unescape r (out @ [CHR 0x08])
            else if e = CHR ''t'' then unescape r (out @ [TAB])
            else if e = CHR ''n'' then unescape r (out @ [NL])
            else if e = CHR ''f'' then unescape r (out @ [CHR 0x0C])
            else if e = CHR ''r'' then unescape r (out @ [CHR 0x0D])
            else if e = DQ then unescape r (out @ [DQ])
            else if e = BS then unescape r (out @ [BS])
            else if e = CHR ''u'' then
              (if length r < 4 then Inl (Err (Text ''invalid unicode escape''))
               else case parseHexRune (take 4 r) of
                      Inl err \<Rightarrow> Inl err
                    | Inr v \<Rightarrow> unescape (drop 4 r) (out @ utf8_AppendRune v))
            else if e = CHR ''U'' then
              (if length r < 8 then Inl (Err (Text ''invalid unicode escape''))
               else case parseHexRune (take 8 r) of
                      Inl err \<Rightarrow> Inl err
                    | Inr v \<Rightarrow> unescape (drop 8 r) (out @ utf8_AppendRune v))
            else Inl (Err (Text ''unsupported escape'')))"
  by pat_completeness auto
termination
  by (relation "measure (\<lambda>(s, _). length s)") simp_all

definition decodeBasicString :: "string \<Rightarrow> bool \<Rightarrow> failure + string" where
  "decodeBasicString s multiline = unescape (if multiline then foldLines s else s) []"

section \<open>The syntax tree\<close>

text \<open>
  \<open>ValueKind\<close> is a string type in the source; its ten constants are the strings below.
  A \<open>Node\<close> is a \<open>*Table\<close>, an \<open>*Array\<close> or a \<open>*Value\<close>. The items of a table are kept as
  an association list in insertion order, with every key bound once (Go's map has no
  order; no theorem below depends on it). A \<open>time.Time\<close> is kept as the pair of its
  Unix time in nanoseconds and its zone offset in seconds, a \<open>float64\<close> as its 64 bits.
\<close>

type_synonym ValueKind = string

abbreviation ValueString :: ValueKind where "ValueString \<equiv> ''string''"
abbreviation ValueInt :: ValueKind where "ValueInt \<equiv> ''int''"
abbreviation ValueFloat :: ValueKind where "ValueFloat \<equiv> ''float''"
abbreviation ValueBool :: ValueKind where "ValueBool \<equiv> ''bool''"
abbreviation ValueDatetime :: ValueKind where "ValueDatetime \<equiv> ''datetime''"
abbreviation ValueLocalDate :: ValueKind where "ValueLocalDate \<equiv> ''local_date''"
abbreviation ValueLocalTime :: ValueKind where "ValueLocalTime \<equiv> ''local_time''"
abbreviation ValueLocalDatetime :: ValueKind where "ValueLocalDatetime \<equiv> ''local_datetime''"
abbreviation ValueTable :: ValueKind where "ValueTable \<equiv> ''table''"
abbreviation ValueArray :: ValueKind where "ValueArray \<equiv> ''array''"

datatype gotime = GoTime int int

datatype payload =
    PString string
  | PInt "64 word"
  | PFloat "64 word"
  | PBool bool
  | PTime gotime

datatype node =
    Table "(string \<times> node) list"
  | Array "node list"
  | Value ValueKind payload

fun Kind :: "node \<Rightarrow> ValueKind" where
  "Kind (Table items) = ValueTable"
| "Kind (Array elems) = ValueArray"
| "Kind (Value t v) = t"

text \<open>
  A pointer to a table inside a tree is the access path of that table from the root of
  the tree: \<open>Key k\<close> enters the item \<open>k\<close> of a table, \<open>Idx i\<close> the element \<open>i\<close> of an array.
  Nothing is ever removed from a tree, so a path stays valid. \<open>lookup\<close> dereferences a
  path, \<open>modify\<close> replaces the node at a path.
\<close>

datatype step = Key string | Idx nat

type_synonym path = "step list"

fun lookup :: "node \<Rightarrow> path \<Rightarrow> node option" where
  "lookup n [] = Some n"
| "lookup n (Key k # p) =
     (case n of
        Table items \<Rightarrow> (case map_of items k of None \<Rightarrow> None | Some c \<Rightarrow> lookup c p)
      | _ \<Rightarrow> None)"
| "lookup n (Idx i # p) =
     (case n of
        Array elems \<Rightarrow> (if i < length elems then lookup (elems ! i) p else None)
      | _ \<Rightarrow> None)"

fun modify :: "(node \<Rightarrow> node) \<Rightarrow> path \<Rightarrow> node \<Rightarrow> node" where
  "modify f [] n = f n"
| "modify f (Key k # p) n =
     (case n of
        Table items \<Rightarrow> Table (map (\<lambda>kc. if fst kc = k then (k, modify f p (snd kc)) else kc) items)
      | _ \<Rightarrow> n)"
| "modify f (Idx i # p) n =
     (case n of
        Array elems \<Rightarrow> (if i < length elems then Array (elems[i := modify f p (elems ! i)]) else n)
      | _ \<Rightarrow> n)"

text \<open>\<open>t.Items\<close>, \<open>t.Items[k] = v\<close> and \<open>arr.Elems = append(arr.Elems, v)\<close> through a pointer.\<close>

definition itemsAt :: "node \<Rightarrow> path \<Rightarrow> (string \<times> node) list option" where
  "itemsAt root t = (case lookup root t of Some (Table items) \<Rightarrow> Some items | _ \<Rightarrow> None)"

fun setKey :: "string \<Rightarrow> node \<Rightarrow> (string \<times> node) list \<Rightarrow> (string \<times> node) list" where
  "setKey k v [] = [(k, v)]"
| "setKey k v (kc # items) = (if fst kc = k then (k, v) # items else kc # setKey k v items)"

definition setItem :: "node \<Rightarrow> path \<Rightarrow> string \<Rightarrow> node \<Rightarrow> node" where
  "setItem root t k v =
     modify (\<lambda>n. case n of Table items \<Rightarrow> Table (setKey k v items) | _ \<Rightarrow> n) t root"

definition appendElem :: "node \<Rightarrow> path \<Rightarrow> node \<Rightarrow> node" where
  "appendElem root a v =
     modify (\<lambda>n. case n of Array elems \<Rightarrow> Array (elems @ [v]) | _ \<Rightarrow> n) a root"

text \<open>
  The loop that walks a table pointer along key segments, creating the tables that are
  missing. The source has it four times (twice in \<open>parseTableHeader\<close>, in \<open>parseKeyValue\<close>
  and in \<open>parseInlineTableToken\<close>); the copies differ in the error they return, which is
  the argument \<open>conflict\<close>. A table pointer that points at no table cannot arise in Go
  and cannot arise here from a parse; the model reports it as a panic. So is the type
  assertion \<open>n.(*Table)\<close> on a node whose kind is \<open>table\<close> but which is no \<open>*Table\<close>.
\<close>

fun walkTables ::
  "(string \<Rightarrow> failure) \<Rightarrow> node \<Rightarrow> path \<Rightarrow> string list \<Rightarrow> failure + (node \<times> path)" where
  "walkTables conflict root t [] = Inr (root, t)"
| "walkTables conflict root t (part # rest) =
     (case itemsAt root t of
        None \<Rightarrow> Inl (Panic ''invalid memory address or nil pointer dereference'')
      | Some items \<Rightarrow>
          (case map_of items part of
             None \<Rightarrow> walkTables conflict (setItem root t part (Table [])) (t @ [Key part]) rest
           | Some n \<Rightarrow>
               if Kind n \<noteq> ValueTable then Inl (conflict part)
               else (case n of
                       Table _ \<Rightarrow> walkTables conflict root (t @ [Key part]) rest
                     | _ \<Rightarrow> Inl (Panic ''interface conversion: Node is not *Table''))))"

text \<open>
  \<open>Items\<close> is a Go map, which holds one value for a key. Here it is a list of pairs
  that \<open>setKey\<close> keeps free of a second pair for a key; \<open>uniqueKeys\<close> says so of every
  table of a tree.
\<close>

fun uniqueKeys :: "node \<Rightarrow> bool" where
  "uniqueKeys (Table items) = (distinct (map fst items) \<and> (\<forall>kc\<in>set items. uniqueKeys (snd kc)))"
| "uniqueKeys (Array elems) = (\<forall>e\<in>set elems. uniqueKeys e)"
| "uniqueKeys (Value k v) = True"

section \<open>The value decoder\<close>

text \<open>
  \<open>time.Parse\<close> and \<open>strconv.ParseFloat\<close> belong to Go's library, not to the parser. The
  parser only asks whether they succeed and stores the result, so they are parameters
  of the model: \<open>time_Parse L layout s\<close> and \<open>strconv_ParseFloat L s\<close> (bit size 64) are
  \<open>None\<close> where the library returns an error.
\<close>

record golib =
  time_Parse :: "string \<Rightarrow> string \<Rightarrow> gotime option"
  strconv_ParseFloat :: "string \<Rightarrow> 64 word option"

definition math_Inf_pos :: "64 word" where "math_Inf_pos = 0x7FF0000000000000"
definition math_Inf_neg :: "64 word" where "math_Inf_neg = 0xFFF0000000000000"
definition math_NaN :: "64 word" where "math_NaN = 0x7FF8000000000001"

definition RFC3339Nano :: string where
  "RFC3339Nano = ''2006-01-02T15:04:05.999999999Z07:00''"

fun firstLayout :: "golib \<Rightarrow> string list \<Rightarrow> string \<Rightarrow> gotime option" where
  "firstLayout L [] s = None"
| "firstLayout L (l # ls) s =
     (case time_Parse L l s of Some t \<Rightarrow> Some t | None \<Rightarrow> firstLayout L ls s)"

definition parseLocalDateTimeVariants :: "golib \<Rightarrow> string \<Rightarrow> node option" where
  "parseLocalDateTimeVariants L s =
     (case firstLayout L [''2006-01-02T15:04:05'', ''2006-01-02 15:04:05'',
                          ''2006-01-02T15:04:05.999999999'', ''2006-01-02 15:04:05.999999999''] s of
        Some t \<Rightarrow> Some (Value ValueLocalDatetime (PTime t))
      | None \<Rightarrow>
          (case time_Parse L ''2006-01-02'' s of
             Some d \<Rightarrow> Some (Value ValueLocalDate (PTime d))
           | None \<Rightarrow>
               (case firstLayout L [''15:04:05'', ''15:04:05.999999999''] s of
                  Some t \<Rightarrow> Some (Value ValueLocalTime (PTime t))
                | None \<Rightarrow> None)))"

definition parseFloatToken :: "golib \<Rightarrow> string \<Rightarrow> failure + 64 word" where
  "parseFloatToken L s =
     (if s = ''inf'' \<or> s = ''+inf'' then Inr math_Inf_pos
      else if s = ''-inf'' then Inr math_Inf_neg
      else if strings_EqualFold_nan s then Inr math_NaN
      else case strconv_ParseFloat L (strings_ReplaceAll_underscore s) of
             None \<Rightarrow> Inl (Err (NumError ''ParseFloat'' (strings_ReplaceAll_underscore s) []))
           | Some f \<Rightarrow> Inr f)"

text \<open>
  The tail of \<open>parseValue\<close>, after the tests for strings, arrays and inline tables: the
  scalar forms in the order of the source.
\<close>

definition parseScalar :: "golib \<Rightarrow> string \<Rightarrow> failure + node" where
  "parseScalar L s =
     (if s = ''true'' \<or> s = ''false'' then Inr (Value ValueBool (PBool (s = ''true'')))
      else if s = ''inf'' \<or> s = ''+inf'' then Inr (Value ValueFloat (PFloat math_Inf_pos))
      else if s = ''-inf'' then Inr (Value ValueFloat (PFloat math_Inf_neg))
      else if strings_EqualFold_nan s then Inr (Value ValueFloat (PFloat math_NaN))
      else case time_Parse L RFC3339Nano s of
        Some t \<Rightarrow> Inr (Value ValueDatetime (PTime t))
      | None \<Rightarrow>
         (case parseLocalDateTimeVariants L s of
            Some t \<Rightarrow> Inr t
          | None \<Rightarrow>
             (case parseIntToken s of
                Inr i \<Rightarrow> Inr (Value ValueInt (PInt i))
              | Inl _ \<Rightarrow>
                 (case parseFloatToken L s of
                    Inr f \<Rightarrow> Inr (Value ValueFloat (PFloat f))
                  | Inl _ \<Rightarrow> Inl (Err (Text ''unsupported value''))))))"

text \<open>The quoted-string forms of \<open>parseValue\<close>; \<open>None\<close> when \<open>s\<close> opens no string.\<close>

definition parseStringForms :: "string \<Rightarrow> (failure + node) option" where
  "parseStringForms s =
     (if strings_HasPrefix s [DQ, DQ, DQ] then
        Some (case extractTripleQuoted s DQ of
                None \<Rightarrow> Inl (Err (Text ''unterminated multiline string''))
              | Some content \<Rightarrow>
                  (case decodeBasicString content True of
                     Inl e \<Rightarrow> Inl e
                   | Inr decoded \<Rightarrow> Inr (Value ValueString (PString decoded))))
      else if strings_HasPrefix s [SQ, SQ, SQ] then
        Some (case extractTripleQuoted s SQ of
                None \<Rightarrow> Inl (Err (Text ''unterminated multiline literal string''))
              | Some content \<Rightarrow> Inr (Value ValueString (PString content)))
      else if strings_HasPrefix s [DQ] then
        Some (case extractSingleQuoted s DQ of
                None \<Rightarrow> Inl (Err (Text ''unterminated string''))
              | Some content \<Rightarrow>
                  (case decodeBasicString content False of
                     Inl e \<Rightarrow> Inl e
                   | Inr decoded \<Rightarrow> Inr (Value ValueString (PString decoded))))
      else if strings_HasPrefix s [SQ] then
        Some (case extractSingleQuoted s SQ of
                None \<Rightarrow> Inl (Err (Text ''unterminated literal string''))
              | Some content \<Rightarrow> Inr (Value ValueString (PString content)))
      else None)"

text \<open>Lengths: what the scanners return is never longer than what they read.\<close>

lemma tripleAt_length: "tripleAt q (ch # s) \<Longrightarrow> 2 \<le> length s"
  by (auto simp: tripleAt_def split: list.splits)
lemma stripComment_loop_length:
  "length (stripComment_loop s inB inL bM lM) \<le> length s"
proof (induction "length s" arbitrary: s inB inL bM lM rule: less_induct)
  case less
  show ?case
  proof (cases s)
    case Nil
    then show ?thesis by simp
  next
    case (Cons ch r)
    have a: "\<And>a b c d. length (stripComment_loop r a b c d) \<le> length r"
      using less [of r] Cons by simp
    have b: "\<And>a b c d. r \<noteq> [] \<Longrightarrow> Suc (length (stripComment_loop (tl r) a b c d)) \<le> length r"
      using less [of "tl r"] Cons by (cases r) simp_all
    have c: "\<And>a b c d q. tripleAt q (ch # r) \<Longrightarrow> Suc (Suc (length (stripComment_loop (drop 2 r) a b c d))) \<le> length r"
    proof -
      fix a b c d q assume "tripleAt q (ch # r)"
      then have l: "2 \<le> length r" by (rule tripleAt_length)
      then have "length (stripComment_loop (drop 2 r) a b c d) \<le> length (drop 2 r)"
        using less [of "drop 2 r"] Cons by simp
      with l show "Suc (Suc (length (stripComment_loop (drop 2 r) a b c d))) \<le> length r"
        by simp
    qed
    show ?thesis unfolding Cons 
      by (simp add: a b c)
  qed
qed

lemma stripCommentPreserveStrings_length:
  "length (stripCommentPreserveStrings s) \<le> length s"
  by (simp add: stripCommentPreserveStrings_def stripComment_loop_length)

lemma trimLeading_length: "length (trimLeading runes s) \<le> length s"
proof (induction runes s rule: trimLeading.induct)
  case (1 runes s)
  show ?case
  proof (cases "leadingRune runes s = 0")
    case True
    then show ?thesis by (simp add: trimLeading.simps [of runes s])
  next
    case False
    with 1 have "length (trimLeading runes (drop (leadingRune runes s) s))
        \<le> length (drop (leadingRune runes s) s)" by simp
    with False show ?thesis by (simp add: trimLeading.simps [of runes s])
  qed
qed

lemma strings_TrimSpace_length: "length (strings_TrimSpace s) \<le> length s"
proof -
  have "length (trimLeading (map rev spaceRunes) (rev (trimLeading spaceRunes s)))
      \<le> length (rev (trimLeading spaceRunes s))"
    by (rule trimLeading_length)
  also have "\<dots> \<le> length s" by (simp add: trimLeading_length)
  finally show ?thesis by (simp add: strings_TrimSpace_def)
qed

definition bounded :: "nat \<Rightarrow> string list \<Rightarrow> bool" where
  "bounded n ps = (\<forall>p\<in>set ps. length p \<le> n)"

lemma bounded_simps [simp]:
  "bounded n []" "bounded n (ps @ [p]) = (bounded n ps \<and> length p \<le> n)"
  by (auto simp: bounded_def)

lemma splitTopLevel_loop_bounded:
  "bounded n parts \<Longrightarrow> length cur + length s \<le> n \<Longrightarrow>
   bounded n (splitTopLevel_loop s sep parts cur dB dC inB inL bM lM)"
proof (induction "length s" arbitrary: s parts cur dB dC inB inL bM lM rule: less_induct)
  case less
  have tr: "length (strings_TrimSpace cur) \<le> n"
    using strings_TrimSpace_length [of cur] less.prems(2) by simp
  show ?case
  proof (cases s)
    case Nil
    with less.prems tr show ?thesis by simp
  next
    case (Cons ch r)
    have a: "\<And>parts' cur' dB dC a b c d. bounded n parts' \<Longrightarrow> length cur' \<le> Suc (length cur)
        \<Longrightarrow> bounded n (splitTopLevel_loop r sep parts' cur' dB dC a b c d)"
      using less.hyps [of r] less.prems(2) Cons by simp
    have b: "\<And>e r' cur' dB dC a b c d. r = e # r' \<Longrightarrow> length cur' \<le> Suc (Suc (length cur))
        \<Longrightarrow> bounded n (splitTopLevel_loop r' sep parts cur' dB dC a b c d)"
      using less.hyps less.prems Cons by simp
    have c: "\<And>q cur' dB dC a b c d. tripleAt q (ch # r) \<Longrightarrow> length cur' \<le> length cur + 3
        \<Longrightarrow> bounded n (splitTopLevel_loop (drop 2 r) sep parts cur' dB dC a b c d)"
    proof -
      fix q and cur' :: string and dB dC a b c d
      assume "tripleAt q (ch # r)" and l: "length cur' \<le> length cur + 3"
      then have "2 \<le> length r" by (simp add: tripleAt_length)
      with l show "bounded n (splitTopLevel_loop (drop 2 r) sep parts cur' dB dC a b c d)"
        using less.hyps [of "drop 2 r"] less.prems Cons by simp
    qed
    have d: "\<And>dB dC a b c d. bounded n (splitTopLevel_loop [] sep parts cur dB dC a b c d)"
      using less.prems tr by simp
    show ?thesis unfolding Cons
      by (simp add: a b c d tr less.prems(1) del: splitTopLevel_loop.simps(1) split: list.split)
  qed
qed

lemma splitTopLevel_length:
  "p \<in> set (splitTopLevel s sep) \<Longrightarrow> length p \<le> length s"
  using splitTopLevel_loop_bounded [of "length s" "[]" "[]" s sep 0 0 False False False False]
  by (simp add: splitTopLevel_def bounded_def)

text \<open>
  The termination order of the value decoder: the length of the text still to decode
  (for a loop, of its longest part), then the function, then the parts left.
\<close>

definition maxLen :: "string list \<Rightarrow> nat" where
  "maxLen ps = foldr (\<lambda>p. max (length p)) ps 0"

lemma maxLen_Cons [simp]: "maxLen (p # ps) = max (length p) (maxLen ps)"
  by (simp add: maxLen_def)

lemma maxLen_Nil [simp]: "maxLen [] = 0"
  by (simp add: maxLen_def)

lemma maxLen_le: "(\<And>p. p \<in> set ps \<Longrightarrow> length p \<le> n) \<Longrightarrow> maxLen ps \<le> n"
  by (induction ps) simp_all

type_synonym decoderCall =
  "((golib \<times> string) + (golib \<times> string)) +
   ((golib \<times> string list \<times> node list \<times> ValueKind) +
    ((golib \<times> string) + (golib \<times> string list \<times> node)))"

definition textLeft :: "decoderCall \<Rightarrow> nat" where
  "textLeft x =
     (case x of
        Inl (Inl (L, s)) \<Rightarrow> length s
      | Inl (Inr (L, s)) \<Rightarrow> length s
      | Inr (Inl (L, parts, elems, k)) \<Rightarrow> maxLen parts
      | Inr (Inr (Inl (L, s))) \<Rightarrow> length s
      | Inr (Inr (Inr (L, pairs, t))) \<Rightarrow> maxLen pairs)"

definition callRank :: "decoderCall \<Rightarrow> nat" where
  "callRank x =
     (case x of
        Inl (Inl _) \<Rightarrow> 3
      | Inl (Inr _) \<Rightarrow> 2
      | Inr (Inl _) \<Rightarrow> 4
      | Inr (Inr (Inl _)) \<Rightarrow> 2
      | Inr (Inr (Inr _)) \<Rightarrow> 4)"

definition partsLeft :: "decoderCall \<Rightarrow> nat" where
  "partsLeft x =
     (case x of
        Inr (Inl (L, parts, elems, k)) \<Rightarrow> length parts
      | Inr (Inr (Inr (L, pairs, t))) \<Rightarrow> length pairs
      | _ \<Rightarrow> 0)"

lemma trimmed_stripped_length:
  "length (strings_TrimSpace (stripCommentPreserveStrings s)) \<le> length s"
  using strings_TrimSpace_length [of "stripCommentPreserveStrings s"]
    stripCommentPreserveStrings_length [of s] by simp

lemma inner_parts_length:
  assumes "content \<noteq> []" and "length content \<le> n"
  shows "maxLen (splitTopLevel (strings_TrimSpace (take (length content - 2) (drop 1 content))) sep) < n"
proof -
  let ?inner = "strings_TrimSpace (take (length content - 2) (drop 1 content))"
  have "length ?inner \<le> length (take (length content - 2) (drop 1 content))"
    by (rule strings_TrimSpace_length)
  also have "\<dots> \<le> length content - 2" by simp
  finally have i: "length ?inner \<le> length content - 2" .
  have "maxLen (splitTopLevel ?inner sep) \<le> length ?inner"
    by (rule maxLen_le) (rule splitTopLevel_length)
  with i have "maxLen (splitTopLevel ?inner sep) \<le> length content - 2" by simp
  moreover have "length content - 2 < length content" using assms(1) by (cases content) simp_all
  ultimately show ?thesis using assms(2) by simp
qed

lemma strings_HasPrefix_nonempty: "strings_HasPrefix s (c # p) \<Longrightarrow> s \<noteq> []"
  by (auto simp: strings_HasPrefix_def)

text \<open>
  \<open>parseValue\<close>, \<open>parseArrayToken\<close> and \<open>parseInlineTableToken\<close> call each other. The
  two \<open>for\<close> loops are functions of their own: \<open>parseArrayElems\<close> carries \<open>arr.Elems\<close> and
  \<open>elemKind\<close> (the empty string at first), \<open>parseInlinePairs\<close> the table \<open>t\<close> under
  construction. A slice expression or an index out of range panics in Go:
  \<open>content[1 : len(content)-1]\<close> for a one-byte \<open>content\<close>, and \<open>parts[len(parts)-1]\<close> for
  an empty \<open>parts\<close>.
\<close>

definition inlineConflict :: "string \<Rightarrow> failure" where
  "inlineConflict part = Err (Text ''inline table path conflict'')"

function parseValue :: "golib \<Rightarrow> string \<Rightarrow> failure + node"
  and parseArrayToken :: "golib \<Rightarrow> string \<Rightarrow> failure + node"
  and parseArrayElems :: "golib \<Rightarrow> string list \<Rightarrow> node list \<Rightarrow> ValueKind \<Rightarrow> failure + node list"
  and parseInlineTableToken :: "golib \<Rightarrow> string \<Rightarrow> failure + node"
  and parseInlinePairs :: "golib \<Rightarrow> string list \<Rightarrow> node \<Rightarrow> failure + node"
where
  "parseValue L s0 =
     (let s = strings_TrimSpace (stripCommentPreserveStrings s0) in
      if s = [] then Inl (Err (Text ''empty value''))
      else case parseStringForms s of
             Some r \<Rightarrow> r
           | None \<Rightarrow>
               if strings_HasPrefix s ''['' then parseArrayToken L s
               else if strings_HasPrefix s ''{'' then parseInlineTableToken L s
               else parseScalar L s)"
| "parseArrayToken L s =
     (let content = strings_TrimSpace (stripCommentPreserveStrings s) in
      if \<not> strings_HasPrefix content ''['' then Inl (Err (Text ''invalid array''))
      else if length content < 2 then Inl (Panic ''slice bounds out of range [1:0]'')
      else
        case parseArrayElems L
               (splitTopLevel (strings_TrimSpace (take (length content - 2) (drop 1 content)))
                  (CHR '','')) [] [] of
          Inl e \<Rightarrow> Inl e
        | Inr elems \<Rightarrow> Inr (Array elems))"
| "parseArrayElems L [] elems elemKind = Inr elems"
| "parseArrayElems L (part # rest) elems elemKind =
     (if strings_TrimSpace part = [] then parseArrayElems L rest elems elemKind
      else
        case parseValue L part of
          Inl e \<Rightarrow> Inl e
        | Inr v \<Rightarrow>
            if elems = [] then parseArrayElems L rest (elems @ [v]) (Kind v)
            else if Kind v \<noteq> elemKind then Inl (Err (Text ''mixed-type array''))
            else parseArrayElems L rest (elems @ [v]) elemKind)"
| "parseInlineTableToken L s =
     (let content = strings_TrimSpace (stripCommentPreserveStrings s) in
      if \<not> strings_HasPrefix content ''{'' \<or> \<not> strings_HasSuffix content ''}'' then
        Inl (Err (Text ''invalid inline table''))
      else
        parseInlinePairs L
          (splitTopLevel (strings_TrimSpace (take (length content - 2) (drop 1 content)))
             (CHR '','')) (Table []))"
| "parseInlinePairs L [] t = Inr t"
| "parseInlinePairs L (pair0 # rest) t =
     (let pair = strings_TrimSpace pair0 in
      if pair = [] then parseInlinePairs L rest t
      else
        case findUnquotedEqual pair of
          None \<Rightarrow> Inl (Err (Text ''invalid inline table kv''))
        | Some idx \<Rightarrow>
            (case parseKeyParts (strings_TrimSpace (take idx pair)) of
               Inl e \<Rightarrow> Inl e
             | Inr parts \<Rightarrow>
                 (case walkTables inlineConflict t [] (butlast parts) of
                    Inl e \<Rightarrow> Inl e
                  | Inr (t1, cur) \<Rightarrow>
                      if parts = [] then Inl (Panic ''index out of range [-1]'')
                      else
                        (case itemsAt t1 cur of
                           None \<Rightarrow> Inl (Panic ''invalid memory address or nil pointer dereference'')
                         | Some items \<Rightarrow>
                             if map_of items (last parts) \<noteq> None then
                               Inl (Err (Text ''duplicate inline table key''))
                             else
                               (case parseValue L (strings_TrimSpace (drop (idx + 1) pair)) of
                                  Inl e \<Rightarrow> Inl e
                                | Inr v \<Rightarrow>
                                    parseInlinePairs L rest (setItem t1 cur (last parts) v))))))"
  by pat_completeness auto
termination
proof (relation "measures [textLeft, callRank, partsLeft]", goal_cases)
  case 1
  show ?case by simp
next
  case (2 L s0 x)
  then show ?case using trimmed_stripped_length [of s0]
    by (auto simp: textLeft_def callRank_def)
next
  case (3 L s0 x)
  then show ?case using trimmed_stripped_length [of s0]
    by (auto simp: textLeft_def callRank_def)
next
  case (4 L s x)
  then have "x \<noteq> []" by auto
  moreover have "length x \<le> length s" using 4 trimmed_stripped_length [of s] by simp
  ultimately show ?case using inner_parts_length [of x "length s" "CHR '',''"]
    by (simp add: textLeft_def)
next
  case 5
  then show ?case by (auto simp: textLeft_def callRank_def partsLeft_def)
next
  case 6
  then show ?case by (auto simp: textLeft_def callRank_def)
next
  case 7
  then show ?case by (auto simp: textLeft_def callRank_def partsLeft_def)
next
  case 8
  then show ?case by (auto simp: textLeft_def callRank_def partsLeft_def)
next
  case (9 L s x)
  then have "x \<noteq> []" by (auto dest: strings_HasPrefix_nonempty)
  moreover have "length x \<le> length s" using 9 trimmed_stripped_length [of s] by simp
  ultimately show ?case using inner_parts_length [of x "length s" "CHR '',''"]
    by (simp add: textLeft_def)
next
  case 10
  then show ?case by (auto simp: textLeft_def callRank_def partsLeft_def)
next
  case (11 L pair0 rest t x idx)
  have "length (strings_TrimSpace (drop (idx + 1) x)) \<le> length (drop (idx + 1) x)"
    by (rule strings_TrimSpace_length)
  also have "\<dots> \<le> length x" by simp
  also have "\<dots> \<le> length pair0" using 11 by (simp add: strings_TrimSpace_length)
  finally show ?case by (auto simp: textLeft_def callRank_def)
next
  case 12
  then show ?case by (auto simp: textLeft_def callRank_def partsLeft_def)
qed

declare parseValue.simps [simp del] parseArrayToken.simps [simp del]
  parseInlineTableToken.simps [simp del]

section \<open>The tree builder\<close>

text \<open>
  The parser state. \<open>scanner\<close> holds the lines that \<open>bufio.Scanner\<close> has not returned
  yet, so \<open>Scan\<close> fails exactly when it is empty (a read error and a line beyond the
  scanner's token limit are outside the model); \<open>cur\<close> is the path of the current table
  in \<open>root\<close>; \<open>lineNo\<close> counts the lines read.
\<close>

record parser =
  scanner :: "string list"
  root :: node
  cur :: path
  lineNo :: nat

definition errf :: "parser \<Rightarrow> message \<Rightarrow> failure" where
  "errf p msg = Err (At (lineNo p) msg)"

text \<open>\<open>p.errf(err.Error())\<close>: an error is wrapped with the line number, a panic is not caught.\<close>

definition rethrow :: "parser \<Rightarrow> failure \<Rightarrow> failure" where
  "rethrow p f = (case f of Err msg \<Rightarrow> errf p msg | Panic x \<Rightarrow> Panic x)"

subsection \<open>consumeValue\<close>

text \<open>
  The two loops of \<open>consumeValue\<close> that pull lines from the scanner, on the lines left
  and the line counter; they return what is left of both. \<open>pullUntil\<close> reads until the
  text after the first \<open>n\<close> bytes contains the closing delimiter, \<open>pullWhileOpen\<close> while the
  bracket depth is positive.
\<close>

fun pullUntil ::
  "string \<Rightarrow> string \<Rightarrow> nat \<Rightarrow> string \<Rightarrow> string list \<Rightarrow> nat
     \<Rightarrow> (failure + string) \<times> string list \<times> nat" where
  "pullUntil delim what n b [] ln = (Inl (Err (Text what)), [], ln)"
| "pullUntil delim what n b (line # rest) ln =
     (let text = b @ [NL] @ line in
      if strings_Contains (drop n text) delim then (Inr text, rest, ln + 1)
      else pullUntil delim what n text rest (ln + 1))"

fun pullWhileOpen ::
  "scanState \<Rightarrow> string \<Rightarrow> string list \<Rightarrow> nat \<Rightarrow> (failure + string) \<times> string list \<times> nat" where
  "pullWhileOpen st b [] ln =
     (if fst st > 0 then (Inl (Err (Text ''unterminated compound value'')), [], ln)
      else (Inr b, [], ln))"
| "pullWhileOpen st b (line # rest) ln =
     (if fst st > 0 then pullWhileOpen (scanDepth line st) (b @ [NL] @ line) rest (ln + 1)
      else (Inr b, line # rest, ln))"

definition consumeValue :: "parser \<Rightarrow> string \<Rightarrow> (failure + string) \<times> parser" where
  "consumeValue p initial =
     (let sTrim = strings_TrimSpace (stripCommentPreserveStrings initial) in
      if sTrim = [] then (Inl (Err (Text ''empty value'')), p)
      else if strings_HasPrefix sTrim [DQ, DQ, DQ]
              \<and> \<not> strings_Contains (drop 3 sTrim) [DQ, DQ, DQ] then
        (case pullUntil [DQ, DQ, DQ] ''unterminated multiline string'' (length initial)
                initial (scanner p) (lineNo p) of
           (r, rest, ln) \<Rightarrow> (r, p\<lparr>scanner := rest, lineNo := ln\<rparr>))
      else if strings_HasPrefix sTrim [SQ, SQ, SQ]
              \<and> \<not> strings_Contains (drop 3 sTrim) [SQ, SQ, SQ] then
        (case pullUntil [SQ, SQ, SQ] ''unterminated multiline literal string'' (length initial)
                initial (scanner p) (lineNo p) of
           (r, rest, ln) \<Rightarrow> (r, p\<lparr>scanner := rest, lineNo := ln\<rparr>))
      else if strings_HasPrefix sTrim ''['' \<or> strings_HasPrefix sTrim ''{'' then
        (case pullWhileOpen (scanDepth initial (0, False, False, False, False))
                initial (scanner p) (lineNo p) of
           (r, rest, ln) \<Rightarrow> (r, p\<lparr>scanner := rest, lineNo := ln\<rparr>))
      else (Inr initial, p))"

subsection \<open>parseTableHeader and parseKeyValue\<close>

definition notTable :: "parser \<Rightarrow> string \<Rightarrow> failure" where
  "notTable p part = errf p (KeyNotTable part)"

text \<open>
  Both functions first turn the line into key segments and then work on the tree. The
  second half is a definition of its own: \<open>applyTableHeader\<close> is \<open>parseTableHeader\<close> from
  \<open>if !isArray\<close> on, \<open>applyKeyValue\<close> is \<open>parseKeyValue\<close> from \<open>t := p.cur\<close> on.
\<close>

definition applyTableHeader :: "parser \<Rightarrow> bool \<Rightarrow> string list \<Rightarrow> failure + parser" where
  "applyTableHeader p isArray parts =
     (if \<not> isArray then
        (case walkTables (notTable p) (root p) [] parts of
           Inl e \<Rightarrow> Inl e
         | Inr (r, t) \<Rightarrow> Inr (p\<lparr>root := r, cur := t\<rparr>))
      else
        (case walkTables (notTable p) (root p) [] (butlast parts) of
           Inl e \<Rightarrow> Inl e
         | Inr (r, parent) \<Rightarrow>
             if parts = [] then Inl (Panic ''index out of range [-1]'')
             else
               (case itemsAt r parent of
                  None \<Rightarrow> Inl (Panic ''invalid memory address or nil pointer dereference'')
                | Some items \<Rightarrow>
                    (case map_of items (last parts) of
                       None \<Rightarrow>
                         Inr (p\<lparr>root := appendElem (setItem r parent (last parts) (Array []))
                                         (parent @ [Key (last parts)]) (Table []),
                                 cur := parent @ [Key (last parts), Idx 0]\<rparr>)
                     | Some existing \<Rightarrow>
                         if Kind existing \<noteq> ValueArray then
                           Inl (errf p (KeyNotArray (last parts)))
                         else
                           (case existing of
                              Array elems \<Rightarrow>
                                Inr (p\<lparr>root := appendElem r (parent @ [Key (last parts)]) (Table []),
                                        cur := parent @ [Key (last parts), Idx (length elems)]\<rparr>)
                            | _ \<Rightarrow> Inl (Panic ''interface conversion: Node is not *Array''))))))"

definition parseTableHeader :: "parser \<Rightarrow> string \<Rightarrow> failure + parser" where
  "parseTableHeader p line =
     (let s = strings_TrimSpace (stripCommentPreserveStrings line);
          isArray = strings_HasPrefix s ''[['' in
      if isArray \<and> \<not> strings_HasSuffix s '']]'' then
        Inl (errf p (Text ''invalid array-of-table header''))
      else if \<not> isArray \<and> \<not> strings_HasSuffix s '']'' then
        Inl (errf p (Text ''invalid table header''))
      else if \<not> isArray \<and> length s < 2 then Inl (Panic ''slice bounds out of range [1:0]'')
      else
        case parseKeyParts
               (if isArray then strings_TrimSpace (take (length s - 4) (drop 2 s))
                else strings_TrimSpace (take (length s - 2) (drop 1 s))) of
          Inl e \<Rightarrow> Inl (rethrow p e)
        | Inr parts \<Rightarrow> applyTableHeader p isArray parts)"

definition applyKeyValue :: "golib \<Rightarrow> parser \<Rightarrow> string list \<Rightarrow> string \<Rightarrow> failure + parser" where
  "applyKeyValue L p parts val =
     (case walkTables (notTable p) (root p) (cur p) (butlast parts) of
        Inl e \<Rightarrow> Inl e
      | Inr (r, t) \<Rightarrow>
          if parts = [] then Inl (Panic ''index out of range [-1]'')
          else
            (case itemsAt r t of
               None \<Rightarrow> Inl (Panic ''invalid memory address or nil pointer dereference'')
             | Some items \<Rightarrow>
                 if map_of items (last parts) \<noteq> None then
                   Inl (errf p (DuplicateKey (last parts)))
                 else
                   (case consumeValue p val of
                      (Inl e, p') \<Rightarrow> Inl (rethrow p' e)
                    | (Inr fullVal, p') \<Rightarrow>
                        (case parseValue L fullVal of
                           Inl e \<Rightarrow> Inl (rethrow p' e)
                         | Inr v \<Rightarrow> Inr (p'\<lparr>root := setItem r t (last parts) v\<rparr>)))))"

definition parseKeyValue :: "golib \<Rightarrow> parser \<Rightarrow> string \<Rightarrow> nat \<Rightarrow> failure + parser" where
  "parseKeyValue L p line idx =
     (case parseKeyParts (strings_TrimSpace (take idx line)) of
        Inl e \<Rightarrow> Inl (rethrow p e)
      | Inr parts \<Rightarrow> applyKeyValue L p parts (strings_TrimSpace (drop (idx + 1) line)))"

subsection \<open>Parse\<close>

text \<open>
  One turn of the loop of \<open>Parse\<close>, after \<open>Scan\<close> has returned the line \<open>raw\<close> and
  \<open>lineNo\<close> has been incremented: \<open>None\<close> for a line that is skipped.
\<close>

definition parseLine :: "golib \<Rightarrow> parser \<Rightarrow> string \<Rightarrow> (failure + parser) option" where
  "parseLine L p raw =
     (let line = strings_TrimSpace raw in
      if line = [] \<or> strings_HasPrefix line ''#'' then None
      else if strings_HasPrefix line ''['' then Some (parseTableHeader p line)
      else case findUnquotedEqual line of
             None \<Rightarrow> Some (Inl (errf p (Text ''invalid syntax'')))
           | Some idx \<Rightarrow> Some (parseKeyValue L p line idx))"

text \<open>Reading lines: the counter advances by the number of lines taken from the scanner.\<close>

lemma pullUntil_lines:
  "pullUntil delim what n b lines ln = (r, rest, ln') \<Longrightarrow>
   ln' + length rest = ln + length lines \<and> ln \<le> ln'"
proof (induction lines arbitrary: b ln)
  case Nil
  then show ?case by simp
next
  case (Cons line lines)
  show ?case
  proof (cases "strings_Contains (drop n (b @ [NL] @ line)) delim")
    case True
    with Cons.prems show ?thesis by auto
  next
    case False
    with Cons.prems have "pullUntil delim what n (b @ [NL] @ line) lines (ln + 1) = (r, rest, ln')"
      by simp
    from Cons.IH [OF this] show ?thesis by simp
  qed
qed

lemma pullWhileOpen_lines:
  "pullWhileOpen st b lines ln = (r, rest, ln') \<Longrightarrow>
   ln' + length rest = ln + length lines \<and> ln \<le> ln'"
proof (induction lines arbitrary: st b ln)
  case Nil
  then show ?case by (auto split: if_splits)
next
  case (Cons line lines)
  show ?case
  proof (cases "fst st > 0")
    case True
    with Cons.prems
    have "pullWhileOpen (scanDepth line st) (b @ [NL] @ line) lines (ln + 1) = (r, rest, ln')"
      by simp
    from Cons.IH [OF this] show ?thesis by simp
  next
    case False
    with Cons.prems show ?thesis by auto
  qed
qed

lemma consumeValue_lines:
  assumes "consumeValue p initial = (r, p')"
  shows "lineNo p' + length (scanner p') = lineNo p + length (scanner p)"
    and "lineNo p \<le> lineNo p'" and "root p' = root p" and "cur p' = cur p"
  using assms
  by (auto simp: consumeValue_def Let_def split: if_splits prod.splits
      dest: pullUntil_lines pullWhileOpen_lines)

lemma parseTableHeader_lines:
  assumes "parseTableHeader p line = Inr p'"
  shows "scanner p' = scanner p" and "lineNo p' = lineNo p"
  using assms
  by (auto simp: parseTableHeader_def applyTableHeader_def Let_def
      split: if_splits sum.splits prod.splits option.splits node.splits)

lemma parseKeyValue_lines:
  assumes "parseKeyValue L p line idx = Inr p'"
  shows "lineNo p' + length (scanner p') = lineNo p + length (scanner p) \<and> lineNo p \<le> lineNo p'"
  using assms
  by (auto simp: parseKeyValue_def applyKeyValue_def
      split: if_splits sum.splits prod.splits option.splits
      dest: consumeValue_lines(1) consumeValue_lines(2))

lemma parseLine_lines:
  assumes "parseLine L p raw = Some (Inr p')"
  shows "lineNo p' + length (scanner p') = lineNo p + length (scanner p) \<and> lineNo p \<le> lineNo p'"
proof (cases "strings_HasPrefix (strings_TrimSpace raw) ''[''")
  case True
  with assms have "parseTableHeader p (strings_TrimSpace raw) = Inr p'"
    by (auto simp: parseLine_def Let_def split: if_splits)
  from parseTableHeader_lines [OF this] show ?thesis by simp
next
  case False
  with assms obtain idx where "parseKeyValue L p (strings_TrimSpace raw) idx = Inr p'"
    by (auto simp: parseLine_def Let_def split: if_splits option.splits)
  from parseKeyValue_lines [OF this] show ?thesis .
qed

text \<open>The loop of \<open>Parse\<close>: it ends when \<open>Scan\<close> fails, and stops at the first error.\<close>

function Parse_loop :: "golib \<Rightarrow> parser \<Rightarrow> failure + node" where
  "Parse_loop L p =
     (case scanner p of
        [] \<Rightarrow> Inr (root p)
      | raw # rest \<Rightarrow>
          (case parseLine L (p\<lparr>scanner := rest, lineNo := lineNo p + 1\<rparr>) raw of
             None \<Rightarrow> Parse_loop L (p\<lparr>scanner := rest, lineNo := lineNo p + 1\<rparr>)
           | Some (Inl e) \<Rightarrow> Inl e
           | Some (Inr p') \<Rightarrow> Parse_loop L p'))"
  by pat_completeness auto
termination
proof (relation "measure (\<lambda>(L, p). length (scanner p))", goal_cases)
  case 1
  show ?case by simp
next
  case (2 L p raw rest)
  then show ?case by simp
next
  case (3 L p raw rest x p')
  from parseLine_lines [OF 3(2) [unfolded 3(3)]] have "length (scanner p') \<le> length rest"
    by simp
  with 3(1) show ?case by simp
qed

declare Parse_loop.simps [simp del]

definition Parse :: "golib \<Rightarrow> string list \<Rightarrow> failure + node" where
  "Parse L lines = Parse_loop L \<lparr>scanner = lines, root = Table [], cur = [], lineNo = 0\<rparr>"

section \<open>Safe access\<close>

fun Get :: "node \<Rightarrow> string list \<Rightarrow> node option" where
  "Get n [] = Some n"
| "Get n (p # path) =
     (if p = [] then Get n path
      else case n of
             Table items \<Rightarrow> (case map_of items p of None \<Rightarrow> None | Some c \<Rightarrow> Get c path)
           | _ \<Rightarrow> None)"

section \<open>Library instances and specification-level definitions\<close>

text \<open>
  Every layout the parser passes to \<open>time.Parse\<close> starts with a year followed by \<open>-\<close>
  or with an hour followed by \<open>:\<close>, so Go's library rejects a text that contains
  neither character. \<open>separatorsNeeded L\<close> states this of a library \<open>L\<close>; the theorems
  about concrete documents assume no more than this of the library.
\<close>

definition tomlLayouts :: "string list" where
  "tomlLayouts =
     [RFC3339Nano, ''2006-01-02T15:04:05'', ''2006-01-02 15:04:05'',
      ''2006-01-02T15:04:05.999999999'', ''2006-01-02 15:04:05.999999999'',
      ''2006-01-02'', ''15:04:05'', ''15:04:05.999999999'']"

definition separatorFree :: "string \<Rightarrow> bool" where
  "separatorFree s = (CHR ''-'' \<notin> set s \<and> CHR '':'' \<notin> set s)"

definition separatorsNeeded :: "golib \<Rightarrow> bool" where
  "separatorsNeeded L =
     (\<forall>l\<in>set tomlLayouts. \<forall>s. separatorFree s \<longrightarrow> time_Parse L l s = None)"

text \<open>
  \<open>guarded L\<close> answers as \<open>L\<close> does, except that it rejects by itself what
  \<open>separatorsNeeded\<close> says is rejected; a library with that property is its own guarded
  version. \<open>rejectAll\<close> is the library in which no text is a date, a time or a float.
\<close>

definition guarded :: "golib \<Rightarrow> golib" where
  "guarded L =
     \<lparr>time_Parse = (\<lambda>l s. if l \<in> set tomlLayouts \<and> separatorFree s then None
                            else time_Parse L l s),
      strconv_ParseFloat = strconv_ParseFloat L\<rparr>"

definition rejectAll :: golib where
  "rejectAll = \<lparr>time_Parse = (\<lambda>l s. None), strconv_ParseFloat = (\<lambda>s. None)\<rparr>"

text \<open>
  The integer literal as the specification words it: underscores are stripped; an
  optional sign followed by \<open>0x\<close>, \<open>0o\<close> or \<open>0b\<close> selects base 16, 8 or 2 over the
  remaining unsigned digits, and the sign is applied afterwards; without a base prefix
  the stripped text is parsed as a signed 64-bit integer in base 10.
\<close>

definition spec_sign :: "string \<Rightarrow> 64 word \<times> string" where
  "spec_sign s =
     (case s of
        [] \<Rightarrow> (1, s)
      | c # r \<Rightarrow> if c = CHR ''-'' then (- 1, r) else if c = CHR ''+'' then (1, r) else (1, s))"

definition spec_base :: "string \<Rightarrow> int option" where
  "spec_base body =
     (if take 2 body = ''0x'' then Some 16
      else if take 2 body = ''0o'' then Some 8
      else if take 2 body = ''0b'' then Some 2
      else None)"

definition spec_intLiteral :: "string \<Rightarrow> failure + 64 word" where
  "spec_intLiteral s0 =
     (let s = filter (\<lambda>c. c \<noteq> CHR ''_'') s0 in
      case spec_base (snd (spec_sign s)) of
        Some base \<Rightarrow>
          (case strconv_ParseUint (drop 2 (snd (spec_sign s))) base 64 of
             Inl e \<Rightarrow> Inl (numError ''ParseUint'' (drop 2 (snd (spec_sign s))) e)
           | Inr v \<Rightarrow> Inr (word_of_int v * fst (spec_sign s)))
      | None \<Rightarrow>
          (case strconv_ParseInt10 s of
             Inl e \<Rightarrow> Inl (numError ''ParseInt'' s e)
           | Inr i \<Rightarrow> Inr i))"

text \<open>The value that a string of digits denotes in a base, most significant digit first.\<close>

definition digitsValue :: "int \<Rightarrow> string \<Rightarrow> int" where
  "digitsValue base ds = foldl (\<lambda>n c. n * base + the (digitVal c)) 0 ds"

definition digitsOf :: "int \<Rightarrow> string \<Rightarrow> bool" where
  "digitsOf base ds = (ds \<noteq> [] \<and> (\<forall>c\<in>set ds. \<exists>d. digitVal c = Some d \<and> d < base))"

section \<open>Properties\<close>

lemma separatorsNeeded_guarded: "separatorsNeeded L \<Longrightarrow> guarded L = L"
  by (auto simp: separatorsNeeded_def guarded_def fun_eq_iff intro!: golib.equality)

lemma separatorsNeeded_rejectAll: "separatorsNeeded rejectAll"
  by (simp add: separatorsNeeded_def rejectAll_def)

subsection \<open>C1: the key-path resolver and the last segment\<close>

text \<open>
  Claim C1 says that whenever \<open>parseKeyParts\<close> accepts a key expression the result has
  at least one segment, so that the callers which take \<open>parts[len(parts)-1]\<close> never index
  past the end. The code does not keep this: \<open>parseKeyParts\<close> accepts the empty key
  expression and the quoted empty key \<open>""\<close> and returns no segment for them, and each of
  the three callers then panics with an index out of range: \<open>parseKeyValue\<close> on the lines
  \<open>= 1\<close> and \<open>"" = 1\<close>, the array-of-tables branch of \<open>parseTableHeader\<close> on \<open>[[]]\<close>, and
  \<open>parseInlineTableToken\<close> on \<open>x = { = 1 }\<close>, whatever the library does.
\<close>

theorem empty_key_indexes_past_end:
  "parseKeyParts [] = Inr []
   \<and> parseKeyParts [DQ, DQ] = Inr []
   \<and> Parse L [''= 1''] = Inl (Panic ''index out of range [-1]'')
   \<and> Parse L [[DQ, DQ] @ '' = 1''] = Inl (Panic ''index out of range [-1]'')
   \<and> Parse L [''[[]]''] = Inl (Panic ''index out of range [-1]'')
   \<and> Parse L [''x = { = 1 }''] = Inl (Panic ''index out of range [-1]'')"
  by code_simp

subsection \<open>C6: integer literals\<close>

lemma signedPrefixed_spec:
  assumes "p = ''0x'' \<or> p = ''0o'' \<or> p = ''0b''"
  shows "signedPrefixed s p = (take 2 (snd (spec_sign s)) = p)"
proof (cases s)
  case Nil
  with assms show ?thesis
    by (auto simp: signedPrefixed_def spec_sign_def strings_HasPrefix_def)
next
  case (Cons c r)
  with assms show ?thesis
    by (cases r) (auto simp: signedPrefixed_def spec_sign_def strings_HasPrefix_def)
qed

lemma parsePrefixed_body:
  assumes "p = ''0x'' \<or> p = ''0o'' \<or> p = ''0b''" and "take 2 body = p"
  shows "parsePrefixed body base =
     (case strconv_ParseUint (drop 2 body) base 64 of
        Inl e \<Rightarrow> Inl (numError ''ParseUint'' (drop 2 body) e)
      | Inr v \<Rightarrow> Inr (word_of_int v * 1))"
    and "parsePrefixed (CHR ''-'' # body) base =
     (case strconv_ParseUint (drop 2 body) base 64 of
        Inl e \<Rightarrow> Inl (numError ''ParseUint'' (drop 2 body) e)
      | Inr v \<Rightarrow> Inr (word_of_int v * (- 1)))"
    and "parsePrefixed (CHR ''+'' # body) base =
     (case strconv_ParseUint (drop 2 body) base 64 of
        Inl e \<Rightarrow> Inl (numError ''ParseUint'' (drop 2 body) e)
      | Inr v \<Rightarrow> Inr (word_of_int v * 1))"
proof -
  from assms obtain c rest where body: "body = CHR ''0'' # c # rest"
    by (cases body; cases "tl body") auto
  show "parsePrefixed body base =
     (case strconv_ParseUint (drop 2 body) base 64 of
        Inl e \<Rightarrow> Inl (numError ''ParseUint'' (drop 2 body) e)
      | Inr v \<Rightarrow> Inr (word_of_int v * 1))"
    by (simp add: body parsePrefixed_def strings_HasPrefix_def cong: sum.case_cong)
  show "parsePrefixed (CHR ''-'' # body) base =
     (case strconv_ParseUint (drop 2 body) base 64 of
        Inl e \<Rightarrow> Inl (numError ''ParseUint'' (drop 2 body) e)
      | Inr v \<Rightarrow> Inr (word_of_int v * (- 1)))"
    by (simp add: body parsePrefixed_def strings_HasPrefix_def cong: sum.case_cong)
  show "parsePrefixed (CHR ''+'' # body) base =
     (case strconv_ParseUint (drop 2 body) base 64 of
        Inl e \<Rightarrow> Inl (numError ''ParseUint'' (drop 2 body) e)
      | Inr v \<Rightarrow> Inr (word_of_int v * 1))"
    by (simp add: body parsePrefixed_def strings_HasPrefix_def cong: sum.case_cong)
qed

lemma parsePrefixed_spec:
  assumes "p = ''0x'' \<or> p = ''0o'' \<or> p = ''0b''" and "take 2 (snd (spec_sign s)) = p"
  shows "parsePrefixed s base =
     (case strconv_ParseUint (drop 2 (snd (spec_sign s))) base 64 of
        Inl e \<Rightarrow> Inl (numError ''ParseUint'' (drop 2 (snd (spec_sign s))) e)
      | Inr v \<Rightarrow> Inr (word_of_int v * fst (spec_sign s)))"
proof (cases s)
  case Nil
  with assms show ?thesis by (auto simp: spec_sign_def)
next
  case (Cons c r)
  consider "c = CHR ''-''" | "c = CHR ''+''" | "c \<noteq> CHR ''-''" "c \<noteq> CHR ''+''" by blast
  then show ?thesis
  proof cases
    case 1
    with Cons assms(2) have "take 2 r = p" by (simp add: spec_sign_def)
    from parsePrefixed_body(2) [OF assms(1) this] show ?thesis
      using 1 Cons by (simp add: spec_sign_def cong: sum.case_cong)
  next
    case 2
    with Cons assms(2) have "take 2 r = p" by (simp add: spec_sign_def)
    from parsePrefixed_body(3) [OF assms(1) this] show ?thesis
      using 2 Cons by (simp add: spec_sign_def cong: sum.case_cong)
  next
    case 3
    with Cons assms(2) have "take 2 s = p" by (simp add: spec_sign_def)
    from parsePrefixed_body(1) [OF assms(1) this] show ?thesis
      using 3 Cons by (simp add: spec_sign_def cong: sum.case_cong)
  qed
qed

text \<open>
  Claim C6: integer literal decoding strips underscores before parsing; an optional sign
  followed by a \<open>0x\<close>, \<open>0o\<close> or \<open>0b\<close> prefix selects base 16, 8 or 2 over the remaining
  unsigned digits, with the sign applied afterwards; a literal without a base prefix
  parses as a base-10 signed 64-bit integer. So \<open>parseIntToken\<close> is the function
  \<open>spec_intLiteral\<close> written from these words, on every input; and \<open>1_000\<close> decodes to
  1000, \<open>0xDEADBEEF\<close> to 3735928559, \<open>0o755\<close> to 493 and \<open>0b1010\<close> to 10.
\<close>

theorem parseIntToken_as_specified:
  "parseIntToken s = spec_intLiteral s
   \<and> parseIntToken ''1_000'' = Inr 1000
   \<and> parseIntToken ''0xDEADBEEF'' = Inr 3735928559
   \<and> parseIntToken ''0o755'' = Inr 493
   \<and> parseIntToken ''0b1010'' = Inr 10"
proof -
  let ?s = "filter (\<lambda>c. c \<noteq> CHR ''_'') s"
  have x: "signedPrefixed ?s ''0x'' = (take 2 (snd (spec_sign ?s)) = ''0x'')"
    by (rule signedPrefixed_spec) simp
  have o: "signedPrefixed ?s ''0o'' = (take 2 (snd (spec_sign ?s)) = ''0o'')"
    by (rule signedPrefixed_spec) simp
  have b: "signedPrefixed ?s ''0b'' = (take 2 (snd (spec_sign ?s)) = ''0b'')"
    by (rule signedPrefixed_spec) simp
  have "parseIntToken s = spec_intLiteral s"
    unfolding parseIntToken_def spec_intLiteral_def spec_base_def strings_ReplaceAll_underscore_def
      Let_def x o b
    by (simp add: parsePrefixed_spec [of "''0x''"] parsePrefixed_spec [of "''0o''"]
        parsePrefixed_spec [of "''0b''"])
  moreover have "parseIntToken ''1_000'' = Inr 1000" by code_simp
  moreover have "parseIntToken ''0xDEADBEEF'' = Inr 3735928559" by code_simp
  moreover have "parseIntToken ''0o755'' = Inr 493" by code_simp
  moreover have "parseIntToken ''0b1010'' = Inr 10" by code_simp
  ultimately show ?thesis by simp
qed

subsection \<open>C9: base-prefixed literals up to \<open>2 ^ 64 - 1\<close>\<close>

lemma digitVal_nonneg: "digitVal c = Some d \<Longrightarrow> 0 \<le> d"
  by (auto simp: digitVal_def Let_def split: if_splits)

lemma digitVal_underscore: "digitVal (CHR ''_'') = None"
  by (simp add: digitVal_def)

lemma digits_fold_ge:
  assumes "\<forall>c\<in>set ds. \<exists>d. digitVal c = Some d \<and> d < base" and "0 \<le> n" and "1 \<le> base"
  shows "n \<le> foldl (\<lambda>n c. n * base + the (digitVal c)) n ds"
  using assms
proof (induction ds arbitrary: n)
  case Nil
  then show ?case by simp
next
  case (Cons c ds)
  then obtain d where d: "digitVal c = Some d" by auto
  then have d0: "0 \<le> d" by (rule digitVal_nonneg)
  have "n * 1 \<le> n * base" using Cons.prems(2,3) by (rule mult_left_mono [rotated])
  then have le: "n \<le> n * base + d" using d0 by simp
  then have "0 \<le> n * base + d" using Cons.prems(2) by simp
  with Cons have "n * base + d \<le> foldl (\<lambda>n c. n * base + the (digitVal c)) (n * base + d) ds"
    by simp
  with le d show ?case by simp
qed

lemma parseUint_loop_digits:
  assumes "base = 2 \<or> base = 8 \<or> base = 16"
    and "\<forall>c\<in>set ds. \<exists>d. digitVal c = Some d \<and> d < base"
    and "0 \<le> n"
    and "foldl (\<lambda>n c. n * base + the (digitVal c)) n ds \<le> maxUint64"
  shows "parseUint_loop base maxUint64 ds n = Inr (foldl (\<lambda>n c. n * base + the (digitVal c)) n ds)"
  using assms(2-)
proof (induction ds arbitrary: n)
  case Nil
  then show ?case by simp
next
  case (Cons c ds)
  then obtain d where d: "digitVal c = Some d" "d < base" by auto
  then have d0: "0 \<le> d" by (simp add: digitVal_nonneg)
  have b1: "1 \<le> base" using assms(1) by auto
  have n0: "0 \<le> n * base + d" using Cons.prems(2) d0 b1 by simp
  have "n * base + d \<le> foldl (\<lambda>n c. n * base + the (digitVal c)) (n * base + d) ds"
    using Cons.prems(1) n0 b1 by (intro digits_fold_ge) auto
  with Cons.prems(3) d have le: "n * base + d \<le> maxUint64" by simp
  then have cut: "\<not> maxUint64 div base + 1 \<le> n"
    using assms(1) d0 by (auto simp: maxUint64_def)
  have md: "(n * base + d) mod (maxUint64 + 1) = n * base + d"
    using n0 le by (simp add: maxUint64_def)
  have "parseUint_loop base maxUint64 ds (n * base + d)
      = Inr (foldl (\<lambda>n c. n * base + the (digitVal c)) (n * base + d) ds)"
    using Cons.prems d n0 by (intro Cons.IH) auto
  with d cut md le d0 show ?case by (simp add: Let_def)
qed

lemma sint_small:
  fixes w :: int
  assumes "- (2 ^ 63) \<le> w" and "w < 2 ^ 63"
  shows "sint (word_of_int w :: 64 word) = w"
proof -
  have "sint (word_of_int w :: 64 word) = signed_take_bit (LENGTH(64) - 1) w"
    by (rule sint_sbintrunc')
  also have "\<dots> = signed_take_bit 63 w" by simp
  also have "\<dots> = w" using assms by (rule signed_take_bit_int_eq_self)
  finally show ?thesis .
qed

lemma sint_unsigned_value:
  fixes v :: int
  assumes v0: "0 \<le> v" and v1: "v \<le> 2 ^ 64 - 1"
  shows "sint (word_of_int v :: 64 word) = (if v < 2 ^ 63 then v else v - 2 ^ 64)"
proof (cases "v < 2 ^ 63")
  case True
  with v0 have "sint (word_of_int v :: 64 word) = v" by (intro sint_small) simp_all
  with True show ?thesis by simp
next
  case False
  have "(word_of_int (v - 2 ^ LENGTH(64)) :: 64 word) = word_of_int v - word_of_int (2 ^ LENGTH(64))"
    by (simp only: wi_hom_sub)
  also have "\<dots> = word_of_int v" by (simp only: word_of_int_2p_len diff_zero)
  finally have e: "(word_of_int v :: 64 word) = word_of_int (v - 2 ^ 64)" by simp
  have "sint (word_of_int v :: 64 word) = sint (word_of_int (v - 2 ^ 64) :: 64 word)"
    using e by (rule arg_cong)
  also have "\<dots> = v - 2 ^ 64"
    using False v1 by (intro sint_small) simp_all
  finally show ?thesis using False by (simp only: if_False)
qed

text \<open>
  Claim C9: for every base-prefixed integer literal (\<open>0x\<close>, \<open>0o\<close>, \<open>0b\<close>) whose digits
  denote a value of up to \<open>2 ^ 64 - 1\<close>, decoding succeeds and the stored 64-bit signed
  payload is the digits' value reduced modulo \<open>2 ^ 64\<close> into the signed range: the value
  itself below \<open>2 ^ 63\<close>, the value minus \<open>2 ^ 64\<close> from there on. In particular
  \<open>0xFFFFFFFFFFFFFFFF\<close> decodes without error to \<open>-1\<close>.
\<close>

theorem prefixed_literal_wraps:
  assumes "(p, base) \<in> {(''0x'', 16), (''0o'', 8), (''0b'', 2)}"
    and "digitsOf base ds"
    and "digitsValue base ds \<le> 2 ^ 64 - 1"
  shows "parseIntToken (p @ ds) = Inr (word_of_int (digitsValue base ds))
    \<and> sint (word_of_int (digitsValue base ds) :: 64 word) =
        (if digitsValue base ds < 2 ^ 63 then digitsValue base ds
         else digitsValue base ds - 2 ^ 64)
    \<and> parseIntToken ''0xFFFFFFFFFFFFFFFF'' = Inr (- 1)"
proof -
  let ?v = "digitsValue base ds"
  have base: "base = 2 \<or> base = 8 \<or> base = 16" using assms(1) by auto
  have ds: "ds \<noteq> []" "\<forall>c\<in>set ds. \<exists>d. digitVal c = Some d \<and> d < base"
    using assms(2) by (auto simp: digitsOf_def)
  have nou: "filter (\<lambda>c. c \<noteq> CHR ''_'') ds = ds"
    using ds(2) by (auto simp: filter_id_conv digitVal_underscore)
  have v0: "0 \<le> ?v"
    unfolding digitsValue_def using ds(2) base by (intro digits_fold_ge) auto
  have "parseUint_loop base maxUint64 ds 0 = Inr ?v"
    unfolding digitsValue_def using base ds(2) assms(3)
    by (intro parseUint_loop_digits) (auto simp: digitsValue_def maxUint64_def)
  then have pu: "strconv_ParseUint ds base 64 = Inr ?v"
    using ds(1) by (simp add: strconv_ParseUint_def maxUint64_def)
  have "parseIntToken (p @ ds) = Inr (word_of_int ?v)"
    using assms(1) pu
    by (auto simp: parseIntToken_def strings_ReplaceAll_underscore_def nou signedPrefixed_def
        strings_HasPrefix_def parsePrefixed_def)
  moreover have "sint (word_of_int ?v :: 64 word) = (if ?v < 2 ^ 63 then ?v else ?v - 2 ^ 64)"
    using v0 assms(3) by (rule sint_unsigned_value)
  moreover have "parseIntToken ''0xFFFFFFFFFFFFFFFF'' = Inr (- 1)" by code_simp
  ultimately show ?thesis by simp
qed

theorem prefixed_literal_wraps_witness:
  "digitsOf 16 ''FFFFFFFFFFFFFFFF''
   \<and> digitsValue 16 ''FFFFFFFFFFFFFFFF'' = 18446744073709551615
   \<and> parseIntToken (''0x'' @ ''FFFFFFFFFFFFFFFF'')
       = Inr (word_of_int (digitsValue 16 ''FFFFFFFFFFFFFFFF''))
   \<and> sint (word_of_int (digitsValue 16 ''FFFFFFFFFFFFFFFF'') :: 64 word) = - 1"
proof -
  have h1: "(''0x'', 16 :: int) \<in> {(''0x'', 16), (''0o'', 8), (''0b'', 2)}" by simp
  have h2: "digitsOf 16 ''FFFFFFFFFFFFFFFF''" by (simp add: digitsOf_def digitVal_def)
  have h3: "digitsValue 16 ''FFFFFFFFFFFFFFFF'' = 18446744073709551615"
    by (simp add: digitsValue_def digitVal_def)
  then have h4: "digitsValue 16 ''FFFFFFFFFFFFFFFF'' \<le> 2 ^ 64 - 1" by simp
  from prefixed_literal_wraps [OF h1 h2 h4] h2 h3 show ?thesis by simp
qed

subsection \<open>C5: literal arrays are homogeneous\<close>

lemma parseArrayElems_same_kind:
  assumes "parseArrayElems L parts elems ek = Inr out"
    and "\<forall>e\<in>set elems. Kind e = ek"
  shows "\<forall>a\<in>set out. \<forall>b\<in>set out. Kind a = Kind b"
  using assms
proof (induction parts arbitrary: elems ek)
  case Nil
  then show ?case by simp
next
  case (Cons part rest)
  show ?case
  proof (cases "strings_TrimSpace part = []")
    case True
    with Cons.prems(1) have "parseArrayElems L rest elems ek = Inr out" by simp
    from Cons.IH [OF this Cons.prems(2)] show ?thesis .
  next
    case False
    with Cons.prems(1) obtain v where v: "parseValue L part = Inr v"
      by (cases "parseValue L part") simp_all
    show ?thesis
    proof (cases "elems = []")
      case True
      with False v Cons.prems(1) have "parseArrayElems L rest [v] (Kind v) = Inr out" by simp
      moreover have "\<forall>e\<in>set [v]. Kind e = Kind v" by simp
      ultimately show ?thesis by (rule Cons.IH)
    next
      case nonempty: False
      with False v Cons.prems(1) have k: "Kind v = ek"
        by (cases "Kind v = ek") simp_all
      with False v nonempty Cons.prems(1)
      have "parseArrayElems L rest (elems @ [v]) ek = Inr out" by simp
      moreover have "\<forall>e\<in>set (elems @ [v]). Kind e = ek" using Cons.prems(2) k by simp
      ultimately show ?thesis by (rule Cons.IH)
    qed
  qed
qed

lemma parseArrayElems_mismatch:
  assumes "\<forall>p\<in>set parts. strings_TrimSpace p \<noteq> []"
    and "map (parseValue L) parts = map Inr vs"
    and "elems \<noteq> []"
    and "\<not> (\<forall>v\<in>set vs. Kind v = ek)"
  shows "parseArrayElems L parts elems ek = Inl (Err (Text ''mixed-type array''))"
  using assms
proof (induction parts arbitrary: elems vs)
  case Nil
  then show ?case by simp
next
  case (Cons part rest)
  from Cons.prems(2) obtain v vs' where vs: "vs = v # vs'" and v: "parseValue L part = Inr v"
    and rest: "map (parseValue L) rest = map Inr vs'"
    by (cases vs) auto
  from Cons.prems(1) have nb: "strings_TrimSpace part \<noteq> []"
    and nbr: "\<forall>p\<in>set rest. strings_TrimSpace p \<noteq> []" by simp_all
  show ?case
  proof (cases "Kind v = ek")
    case True
    with Cons.prems(4) vs have m: "\<not> (\<forall>v\<in>set vs'. Kind v = ek)" by simp
    have ne: "elems @ [v] \<noteq> []" by simp
    have "parseArrayElems L rest (elems @ [v]) ek = Inl (Err (Text ''mixed-type array''))"
      using nbr rest ne m by (rule Cons.IH)
    with nb v Cons.prems(3) True show ?thesis by simp
  next
    case False
    with nb v Cons.prems(3) show ?thesis by simp
  qed
qed

lemma parseArrayElems_mixed:
  assumes nb: "\<forall>p\<in>set parts. strings_TrimSpace p \<noteq> []"
    and dec: "map (parseValue L) parts = map Inr vs"
    and mix: "\<not> (\<forall>a\<in>set vs. \<forall>b\<in>set vs. Kind a = Kind b)"
  shows "parseArrayElems L parts [] [] = Inl (Err (Text ''mixed-type array''))"
proof (cases parts)
  case Nil
  with dec have "vs = []" by simp
  with mix show ?thesis by simp
next
  case (Cons part rest)
  with dec obtain v vs' where vs: "vs = v # vs'" and v: "parseValue L part = Inr v"
    and rest: "map (parseValue L) rest = map Inr vs'"
    by (cases vs) auto
  from nb Cons have nbp: "strings_TrimSpace part \<noteq> []"
    and nbr: "\<forall>p\<in>set rest. strings_TrimSpace p \<noteq> []" by simp_all
  have m: "\<not> (\<forall>w\<in>set vs'. Kind w = Kind v)"
  proof
    assume "\<forall>w\<in>set vs'. Kind w = Kind v"
    then have "\<forall>a\<in>set vs. Kind a = Kind v" using vs by simp
    then have "\<forall>a\<in>set vs. \<forall>b\<in>set vs. Kind a = Kind b" by simp
    with mix show False ..
  qed
  have ne: "[v] \<noteq> []" by simp
  have "parseArrayElems L rest [v] (Kind v) = Inl (Err (Text ''mixed-type array''))"
    using nbr rest ne m by (rule parseArrayElems_mismatch)
  with nbp v Cons show ?thesis by simp
qed

text \<open>
  Claim C5: every Array produced from a literal array token is homogeneous, all of its
  elements report the same discriminant tag (\<open>Kind\<close>); and decoding an array token whose
  elements would have differing discriminants is a hard error (\<open>mixed-type array\<close>) rather
  than a mixed array. The first part is about every token that \<open>parseArrayToken\<close> accepts;
  the second about the loop over the elements of a token, when each of them decodes.
\<close>

theorem literal_array_homogeneous:
  "(parseArrayToken L s = Inr n \<longrightarrow>
      (\<exists>elems. n = Array elems \<and> (\<forall>a\<in>set elems. \<forall>b\<in>set elems. Kind a = Kind b)))
   \<and> ((\<forall>p\<in>set parts. strings_TrimSpace p \<noteq> []) \<and> map (parseValue L) parts = map Inr vs
        \<and> \<not> (\<forall>a\<in>set vs. \<forall>b\<in>set vs. Kind a = Kind b) \<longrightarrow>
      parseArrayElems L parts [] [] = Inl (Err (Text ''mixed-type array'')))"
proof (intro conjI impI)
  assume a: "parseArrayToken L s = Inr n"
  define content where "content = strings_TrimSpace (stripCommentPreserveStrings s)"
  define ps where
    "ps = splitTopLevel (strings_TrimSpace (take (length content - 2) (drop 1 content))) (CHR '','')"
  have "parseArrayToken L s =
      (if \<not> strings_HasPrefix content ''['' then Inl (Err (Text ''invalid array''))
       else if length content < 2 then Inl (Panic ''slice bounds out of range [1:0]'')
       else case parseArrayElems L ps [] [] of Inl e \<Rightarrow> Inl e | Inr elems \<Rightarrow> Inr (Array elems))"
    unfolding content_def ps_def by (simp only: parseArrayToken.simps Let_def)
  with a have "(case parseArrayElems L ps [] [] of Inl e \<Rightarrow> Inl e | Inr elems \<Rightarrow> Inr (Array elems))
      = Inr n"
    by (simp split: if_splits)
  then obtain elems where e: "parseArrayElems L ps [] [] = Inr elems" and n: "n = Array elems"
    by (cases "parseArrayElems L ps [] []") auto
  have "\<forall>e\<in>set ([] :: node list). Kind e = []" by simp
  with e have "\<forall>a\<in>set elems. \<forall>b\<in>set elems. Kind a = Kind b"
    by (rule parseArrayElems_same_kind)
  with n show "\<exists>elems. n = Array elems \<and> (\<forall>a\<in>set elems. \<forall>b\<in>set elems. Kind a = Kind b)"
    by blast
next
  assume h: "(\<forall>p\<in>set parts. strings_TrimSpace p \<noteq> []) \<and> map (parseValue L) parts = map Inr vs
        \<and> \<not> (\<forall>a\<in>set vs. \<forall>b\<in>set vs. Kind a = Kind b)"
  then have "\<forall>p\<in>set parts. strings_TrimSpace p \<noteq> []"
    and "map (parseValue L) parts = map Inr vs"
    and "\<not> (\<forall>a\<in>set vs. \<forall>b\<in>set vs. Kind a = Kind b)" by blast+
  then show "parseArrayElems L parts [] [] = Inl (Err (Text ''mixed-type array''))"
    by (rule parseArrayElems_mixed)
qed

theorem literal_array_homogeneous_witness:
  "parseArrayToken rejectAll ''[1, 2]'' = Inr (Array [Value ValueInt (PInt 1), Value ValueInt (PInt 2)])
   \<and> list_all (\<lambda>a. list_all (\<lambda>b. Kind a = Kind b)
        [Value ValueInt (PInt 1), Value ValueInt (PInt 2)])
        [Value ValueInt (PInt 1), Value ValueInt (PInt 2)]
   \<and> map (parseValue rejectAll) [''1'', ''true'']
        = map Inr [Value ValueInt (PInt 1), Value ValueBool (PBool True)]
   \<and> parseArrayElems rejectAll [''1'', ''true''] [] [] = Inl (Err (Text ''mixed-type array''))"
proof -
  let ?vs = "[Value ValueInt (PInt 1), Value ValueBool (PBool True)]"
  let ?n = "Array [Value ValueInt (PInt 1), Value ValueInt (PInt 2)]"
  note T = literal_array_homogeneous [of rejectAll "''[1, 2]''" ?n "[''1'', ''true'']" ?vs]
  have t: "parseArrayToken rejectAll ''[1, 2]'' = Inr ?n"
    by code_simp
  have m: "map (parseValue rejectAll) [''1'', ''true''] = map Inr ?vs"
    by code_simp
  have nb: "\<forall>p\<in>set [''1'', ''true'']. strings_TrimSpace p \<noteq> []" by code_simp
  have k: "\<not> (\<forall>a\<in>set ?vs. \<forall>b\<in>set ?vs. Kind a = Kind b)" by simp
  from T t have "\<exists>elems. ?n = Array elems \<and> (\<forall>a\<in>set elems. \<forall>b\<in>set elems. Kind a = Kind b)"
    by blast
  then have h: "list_all (\<lambda>a. list_all (\<lambda>b. Kind a = Kind b)
        [Value ValueInt (PInt 1), Value ValueInt (PInt 2)])
        [Value ValueInt (PInt 1), Value ValueInt (PInt 2)]"
    by simp
  from T nb m k have "parseArrayElems rejectAll [''1'', ''true''] [] [] = Inl (Err (Text ''mixed-type array''))"
    by blast
  with t m h show ?thesis by blast
qed

subsection \<open>C10: empty array elements and the trailing comma\<close>

lemma parseArrayElems_skips_blank:
  "parseArrayElems L parts elems ek =
   parseArrayElems L (filter (\<lambda>p. strings_TrimSpace p \<noteq> []) parts) elems ek"
proof (induction parts arbitrary: elems ek)
  case Nil
  show ?case by simp
next
  case (Cons part rest)
  show ?case
  proof (cases "strings_TrimSpace part = []")
    case True
    then show ?thesis using Cons.IH [of elems ek] by simp
  next
    case False
    show ?thesis
    proof (cases "parseValue L part")
      case (Inl e)
      with False show ?thesis by simp
    next
      case (Inr v)
      with False show ?thesis by (simp add: Cons.IH)
    qed
  qed
qed

text \<open>
  Claim C10: when a literal array token is split on top-level commas, the elements that
  are empty after trimming are skipped rather than decoded: the loop over the parts of
  a token does the same on the parts with the blank ones removed. So an array written
  with a trailing comma, \<open>[8001, 8002,]\<close>, decodes without error to the Array of exactly
  its two elements, on one line and spread over several lines as well, for every library
  that rejects as a date or time a text without \<open>-\<close> and \<open>:\<close>.
\<close>

theorem blank_array_elements_skipped:
  "parseArrayElems L parts elems ek =
     parseArrayElems L (filter (\<lambda>p. strings_TrimSpace p \<noteq> []) parts) elems ek
   \<and> (separatorsNeeded L \<longrightarrow>
        parseArrayToken L ''[8001, 8002,]''
          = Inr (Array [Value ValueInt (PInt 8001), Value ValueInt (PInt 8002)])
        \<and> Parse L [''ports = ['', ''  8001,'', ''  8002,'', '']'']
          = Inr (Table [(''ports'', Array [Value ValueInt (PInt 8001), Value ValueInt (PInt 8002)])]))"
proof (intro conjI impI)
  show "parseArrayElems L parts elems ek =
     parseArrayElems L (filter (\<lambda>p. strings_TrimSpace p \<noteq> []) parts) elems ek"
    by (rule parseArrayElems_skips_blank)
next
  assume "separatorsNeeded L"
  then have g: "guarded L = L" by (rule separatorsNeeded_guarded)
  have "parseArrayToken (guarded L) ''[8001, 8002,]''
      = Inr (Array [Value ValueInt (PInt 8001), Value ValueInt (PInt 8002)])"
    by code_simp
  with g show "parseArrayToken L ''[8001, 8002,]''
      = Inr (Array [Value ValueInt (PInt 8001), Value ValueInt (PInt 8002)])"
    by simp
  have "Parse (guarded L) [''ports = ['', ''  8001,'', ''  8002,'', '']'']
      = Inr (Table [(''ports'', Array [Value ValueInt (PInt 8001), Value ValueInt (PInt 8002)])])"
    by code_simp
  with g show "Parse L [''ports = ['', ''  8001,'', ''  8002,'', '']'']
      = Inr (Table [(''ports'', Array [Value ValueInt (PInt 8001), Value ValueInt (PInt 8002)])])"
    by simp
qed

theorem blank_array_elements_skipped_witness:
  "separatorsNeeded rejectAll
   \<and> parseArrayElems rejectAll [''1'', '' '', ''2''] [] []
       = parseArrayElems rejectAll (filter (\<lambda>p. strings_TrimSpace p \<noteq> []) [''1'', '' '', ''2'']) [] []
   \<and> parseArrayToken rejectAll ''[8001, 8002,]''
       = Inr (Array [Value ValueInt (PInt 8001), Value ValueInt (PInt 8002)])
   \<and> Parse rejectAll [''ports = ['', ''  8001,'', ''  8002,'', '']'']
       = Inr (Table [(''ports'', Array [Value ValueInt (PInt 8001), Value ValueInt (PInt 8002)])])"
  using blank_array_elements_skipped [of rejectAll "[''1'', '' '', ''2'']" "[]" "[]"]
    separatorsNeeded_rejectAll
  by blast

subsection \<open>C8: the line number of an error\<close>












subsection \<open>Paths in the tree\<close>


lemma map_of_modify_key:
  "map_of (map (\<lambda>kc. if fst kc = k then (k, g (snd kc)) else kc) items) k
     = map_option g (map_of items k)"
  by (induction items) auto

lemma lookup_modify_same: "lookup (modify f p n) p = map_option f (lookup n p)"
proof (induction p arbitrary: n)
  case Nil
  show ?case by simp
next
  case (Cons s p)
  show ?case
  proof (cases s)
    case (Key k)
    show ?thesis
    proof (cases n)
      case (Table items)
      show ?thesis
        by (cases "map_of items k") (simp_all add: Key Table map_of_modify_key Cons.IH)
    qed (simp_all add: Key)
  next
    case (Idx i)
    show ?thesis
    proof (cases n)
      case (Array elems)
      show ?thesis by (simp add: Idx Array Cons.IH)
    qed (simp_all add: Idx)
  qed
qed

lemma itemsAt_lookup: "itemsAt r t = Some items \<longleftrightarrow> lookup r t = Some (Table items)"
  by (auto simp: itemsAt_def split: option.splits node.splits)


lemma setKey_fresh: "map_of items k = None \<Longrightarrow> setKey k v items = items @ [(k, v)]"
  by (induction items) (auto split: if_splits)

lemma itemsAt_setItem:
  assumes "itemsAt r t = Some items"
  shows "itemsAt (setItem r t k v) t = Some (setKey k v items)"
  using assms by (simp add: itemsAt_lookup setItem_def lookup_modify_same)



lemma walkTables_append:
  "walkTables conflict r t (ps @ qs) =
     (case walkTables conflict r t ps of
        Inl e \<Rightarrow> Inl e
      | Inr (r1, t1) \<Rightarrow> walkTables conflict r1 t1 qs)"
proof (induction ps arbitrary: r t)
  case Nil
  show ?case by simp
next
  case (Cons part ps)
  show ?case
  proof (cases "itemsAt r t")
    case None
    then show ?thesis by simp
  next
    case (Some items)
    show ?thesis
    proof (cases "map_of items part")
      case None
      with Some show ?thesis by (simp add: Cons.IH)
    next
      case (Some n)
      with \<open>itemsAt r t = Some items\<close> show ?thesis
        by (cases n) (simp_all add: Cons.IH)
    qed
  qed
qed

lemma walkTables_blocked:
  assumes "itemsAt r t = Some items" and "map_of items part = Some n" and "\<forall>x. n \<noteq> Table x"
  shows "walkTables conflict r t (part # rest) =
     Inl (if Kind n \<noteq> ValueTable then conflict part
          else Panic ''interface conversion: Node is not *Table'')"
  using assms by (cases n) simp_all

lemma walkTables_blocked_after:
  assumes "walkTables conflict r t ps = Inr (r1, t1)"
    and "itemsAt r1 t1 = Some items" and "map_of items part = Some n" and "\<forall>x. n \<noteq> Table x"
  shows "walkTables conflict r t (ps @ part # rest) =
     Inl (if Kind n \<noteq> ValueTable then conflict part
          else Panic ''interface conversion: Node is not *Table'')"
  using assms(1) walkTables_blocked [OF assms(2-4), of conflict rest]
  by (simp add: walkTables_append)

subsection \<open>C3: a key path continues only through tables\<close>

text \<open>
  Claim C3: for every key path walked by the tree builder (table headers and key/value
  bindings alike), traversing an existing intermediate binding succeeds only if that
  binding is a Table; traversing through a Value or an Array is a hard error. And an
  array-of-tables header whose final segment is already bound succeeds only if that
  binding is an Array, and is an error on any other kind.

  The path is \<open>ps @ part # rest\<close>: the walk along \<open>ps\<close> has reached a table in which \<open>part\<close>
  is bound to a node \<open>n\<close> that is no Table. Then a plain header fails at \<open>part\<close>; an
  array-of-tables header and a key/value binding fail there when \<open>part\<close> is not the last
  segment (\<open>rest\<close> is not empty). The failure is the error \<open>key part already defined and is
  not a table\<close> with the line number; a node that is no Table and yet reports the kind
  \<open>table\<close>, which the value decoder never builds, fails the type assertion. For the
  array-of-tables header with last segment \<open>part\<close> bound to a node that is no Array, the
  error is \<open>key part already defined and is not an array\<close>.
\<close>

theorem traversal_only_through_tables:
  "(walkTables (notTable p) (root p) [] ps = Inr (r1, t1) \<and> itemsAt r1 t1 = Some items
      \<and> map_of items part = Some n \<and> (\<forall>x. n \<noteq> Table x) \<longrightarrow>
      applyTableHeader p False (ps @ part # rest)
        = Inl (if Kind n \<noteq> ValueTable then errf p (KeyNotTable part)
               else Panic ''interface conversion: Node is not *Table'')
      \<and> (rest \<noteq> [] \<longrightarrow>
           applyTableHeader p True (ps @ part # rest)
             = Inl (if Kind n \<noteq> ValueTable then errf p (KeyNotTable part)
                    else Panic ''interface conversion: Node is not *Table'')))
   \<and> (walkTables (notTable p) (root p) (cur p) ps = Inr (r1, t1) \<and> itemsAt r1 t1 = Some items
      \<and> map_of items part = Some n \<and> (\<forall>x. n \<noteq> Table x) \<and> rest \<noteq> [] \<longrightarrow>
      applyKeyValue L p (ps @ part # rest) val
        = Inl (if Kind n \<noteq> ValueTable then errf p (KeyNotTable part)
               else Panic ''interface conversion: Node is not *Table''))
   \<and> (walkTables (notTable p) (root p) [] ps = Inr (r1, t1) \<and> itemsAt r1 t1 = Some items
      \<and> map_of items part = Some n \<and> (\<forall>x. n \<noteq> Array x) \<longrightarrow>
      applyTableHeader p True (ps @ [part])
        = Inl (if Kind n \<noteq> ValueArray then errf p (KeyNotArray part)
               else Panic ''interface conversion: Node is not *Array''))"
proof (intro conjI impI)
  assume h: "walkTables (notTable p) (root p) [] ps = Inr (r1, t1) \<and> itemsAt r1 t1 = Some items
      \<and> map_of items part = Some n \<and> (\<forall>x. n \<noteq> Table x)"
  then have w: "walkTables (notTable p) (root p) [] (ps @ part # rest)
      = Inl (if Kind n \<noteq> ValueTable then notTable p part
             else Panic ''interface conversion: Node is not *Table'')"
    by (intro walkTables_blocked_after) blast+
  then show "applyTableHeader p False (ps @ part # rest)
        = Inl (if Kind n \<noteq> ValueTable then errf p (KeyNotTable part)
               else Panic ''interface conversion: Node is not *Table'')"
    by (simp add: applyTableHeader_def notTable_def)
next
  assume h: "walkTables (notTable p) (root p) [] ps = Inr (r1, t1) \<and> itemsAt r1 t1 = Some items
      \<and> map_of items part = Some n \<and> (\<forall>x. n \<noteq> Table x)"
    and rest: "rest \<noteq> []"
  from rest have b: "butlast (ps @ part # rest) = ps @ part # butlast rest"
    by (simp add: butlast_append)
  from h have "walkTables (notTable p) (root p) [] (ps @ part # butlast rest)
      = Inl (if Kind n \<noteq> ValueTable then notTable p part
             else Panic ''interface conversion: Node is not *Table'')"
    by (intro walkTables_blocked_after) blast+
  then show "applyTableHeader p True (ps @ part # rest)
        = Inl (if Kind n \<noteq> ValueTable then errf p (KeyNotTable part)
               else Panic ''interface conversion: Node is not *Table'')"
    by (simp add: applyTableHeader_def notTable_def b)
next
  assume h: "walkTables (notTable p) (root p) (cur p) ps = Inr (r1, t1) \<and> itemsAt r1 t1 = Some items
      \<and> map_of items part = Some n \<and> (\<forall>x. n \<noteq> Table x) \<and> rest \<noteq> []"
  then have b: "butlast (ps @ part # rest) = ps @ part # butlast rest"
    by (simp add: butlast_append)
  from h have "walkTables (notTable p) (root p) (cur p) (ps @ part # butlast rest)
      = Inl (if Kind n \<noteq> ValueTable then notTable p part
             else Panic ''interface conversion: Node is not *Table'')"
    by (intro walkTables_blocked_after) blast+
  then show "applyKeyValue L p (ps @ part # rest) val
        = Inl (if Kind n \<noteq> ValueTable then errf p (KeyNotTable part)
               else Panic ''interface conversion: Node is not *Table'')"
    by (simp add: applyKeyValue_def notTable_def b)
next
  assume h: "walkTables (notTable p) (root p) [] ps = Inr (r1, t1) \<and> itemsAt r1 t1 = Some items
      \<and> map_of items part = Some n \<and> (\<forall>x. n \<noteq> Array x)"
  then have w: "walkTables (notTable p) (root p) [] ps = Inr (r1, t1)"
    and i: "itemsAt r1 t1 = Some items" and m: "map_of items part = Some n"
    and a: "\<forall>x. n \<noteq> Array x" by blast+
  show "applyTableHeader p True (ps @ [part])
        = Inl (if Kind n \<noteq> ValueArray then errf p (KeyNotArray part)
               else Panic ''interface conversion: Node is not *Array'')"
    using w i m a by (cases n) (simp_all add: applyTableHeader_def)
qed

theorem traversal_only_through_tables_witness:
  "walkTables (notTable \<lparr>scanner = [], root = Table [(''a'', Table [(''b'', Value ValueInt (PInt 1))])],
        cur = [], lineNo = 3\<rparr>) (Table [(''a'', Table [(''b'', Value ValueInt (PInt 1))])]) [] [''a'']
     = Inr (Table [(''a'', Table [(''b'', Value ValueInt (PInt 1))])], [Key ''a''])
   \<and> applyTableHeader \<lparr>scanner = [], root = Table [(''a'', Table [(''b'', Value ValueInt (PInt 1))])],
        cur = [], lineNo = 3\<rparr> False [''a'', ''b'', ''c'']
     = Inl (Err (At 3 (KeyNotTable ''b'')))
   \<and> applyTableHeader \<lparr>scanner = [], root = Table [(''a'', Table [(''b'', Value ValueInt (PInt 1))])],
        cur = [], lineNo = 3\<rparr> True [''a'', ''b'', ''c'']
     = Inl (Err (At 3 (KeyNotTable ''b'')))
   \<and> applyKeyValue rejectAll \<lparr>scanner = [], root = Table [(''a'', Table [(''b'', Value ValueInt (PInt 1))])],
        cur = [], lineNo = 3\<rparr> [''a'', ''b'', ''c''] ''2''
     = Inl (Err (At 3 (KeyNotTable ''b'')))
   \<and> applyTableHeader \<lparr>scanner = [], root = Table [(''a'', Table [(''b'', Value ValueInt (PInt 1))])],
        cur = [], lineNo = 3\<rparr> True [''a'', ''b'']
     = Inl (Err (At 3 (KeyNotArray ''b'')))"
proof -
  let ?r = "Table [(''a'', Table [(''b'', Value ValueInt (PInt 1))])]"
  let ?p = "\<lparr>scanner = [], root = ?r, cur = [], lineNo = 3\<rparr>"
  let ?n = "Value ValueInt (PInt 1)"
  note T = traversal_only_through_tables
    [of ?p "[''a'']" ?r "[Key ''a'']" "[(''b'', ?n)]" "''b''" ?n "[''c'']" rejectAll "''2''"]
  have w: "walkTables (notTable ?p) ?r [] [''a''] = Inr (?r, [Key ''a''])"
    by (simp add: itemsAt_def)
  have i: "itemsAt ?r [Key ''a''] = Some [(''b'', ?n)]" by (simp add: itemsAt_def)
  have m: "map_of [(''b'', ?n)] ''b'' = Some ?n" by simp
  have nt: "\<forall>x. ?n \<noteq> Table x" and na: "\<forall>x. ?n \<noteq> Array x" by simp_all
  have rp: "root ?p = ?r" and cp: "cur ?p = []" by simp_all
  have ne: "[''c''] \<noteq> []" by simp
  from T w i m nt rp
  have 1: "applyTableHeader ?p False ([''a''] @ ''b'' # [''c''])
      = Inl (if Kind ?n \<noteq> ValueTable then errf ?p (KeyNotTable ''b'')
             else Panic ''interface conversion: Node is not *Table'')"
    by (metis (no_types, lifting))
  from T w i m nt rp ne
  have 2: "applyTableHeader ?p True ([''a''] @ ''b'' # [''c''])
      = Inl (if Kind ?n \<noteq> ValueTable then errf ?p (KeyNotTable ''b'')
             else Panic ''interface conversion: Node is not *Table'')"
    by (metis (no_types, lifting))
  from T w i m nt rp cp ne
  have 3: "applyKeyValue rejectAll ?p ([''a''] @ ''b'' # [''c'']) ''2''
      = Inl (if Kind ?n \<noteq> ValueTable then errf ?p (KeyNotTable ''b'')
             else Panic ''interface conversion: Node is not *Table'')"
    by (metis (no_types, lifting))
  from T w i m na rp
  have 4: "applyTableHeader ?p True ([''a''] @ [''b''])
      = Inl (if Kind ?n \<noteq> ValueArray then errf ?p (KeyNotArray ''b'')
             else Panic ''interface conversion: Node is not *Array'')"
    by (metis (no_types, lifting))
  from w 1 2 3 4 show ?thesis by (simp add: errf_def)
qed

subsection \<open>C2: a bound key is never bound again\<close>

text \<open>Every table of a tree that the parser builds has one pair for a key.\<close>

lemma setKey_keys: "map fst (setKey k v items) = (if k \<in> fst ` set items then map fst items else map fst items @ [k])"
  by (induction items) auto

lemma setKey_distinct: "distinct (map fst items) \<Longrightarrow> distinct (map fst (setKey k v items))"
  by (simp add: setKey_keys)

lemma setKey_set: "set (setKey k v items) \<subseteq> insert (k, v) (set items)"
  by (induction items) auto

lemma uniqueKeys_setKey:
  assumes "uniqueKeys (Table items)" and "uniqueKeys v"
  shows "uniqueKeys (Table (setKey k v items))"
  using assms setKey_set [of k v items] by (auto simp: setKey_distinct)

lemma uniqueKeys_modify:
  assumes "uniqueKeys n" and "\<And>c. uniqueKeys c \<Longrightarrow> uniqueKeys (f c)"
  shows "uniqueKeys (modify f p n)"
  using assms(1)
proof (induction p arbitrary: n)
  case Nil
  then show ?case by (simp add: assms(2))
next
  case (Cons s p)
  show ?case
  proof (cases s)
    case (Key k)
    show ?thesis
    proof (cases n)
      case (Table items)
      let ?g = "\<lambda>kc. if fst kc = k then (k, modify f p (snd kc)) else kc"
      have k: "map fst (map ?g items) = map fst items"
        by (induction items) auto
      from Cons.prems Table have d: "distinct (map fst items)"
        and c: "\<forall>kc\<in>set items. uniqueKeys (snd kc)" by simp_all
      from c have c': "\<forall>kc\<in>set items. uniqueKeys (modify f p (snd kc))"
        by (auto intro: Cons.IH)
      have d': "distinct (map fst (map ?g items))" using d by (simp only: k)
      have u: "\<forall>kc\<in>set (map ?g items). uniqueKeys (snd kc)"
        using c c' by auto
      have "uniqueKeys (Table (map ?g items))" using d' u by (simp only: uniqueKeys.simps)
      then show ?thesis by (simp add: Key Table)
    qed (use Cons.prems in \<open>simp_all add: Key\<close>)
  next
    case (Idx i)
    show ?thesis
    proof (cases n)
      case (Array elems)
      show ?thesis
      proof (cases "i < length elems")
        case True
        with Cons.prems Array have "uniqueKeys (modify f p (elems ! i))"
          by (intro Cons.IH) simp
        with Cons.prems Array True show ?thesis
          using set_update_subset_insert [of elems i "modify f p (elems ! i)"]
          by (auto simp: Idx)
      next
        case False
        with Cons.prems Array show ?thesis by (simp add: Idx)
      qed
    qed (use Cons.prems in \<open>simp_all add: Idx\<close>)
  qed
qed

lemma uniqueKeys_setItem:
  assumes "uniqueKeys r" and "uniqueKeys v"
  shows "uniqueKeys (setItem r t k v)"
  unfolding setItem_def using assms(1)
proof (rule uniqueKeys_modify)
  fix c assume "uniqueKeys c"
  with assms(2) show "uniqueKeys (case c of Table items \<Rightarrow> Table (setKey k v items) | _ \<Rightarrow> c)"
    by (cases c) (simp_all only: node.case uniqueKeys_setKey)
qed

lemma uniqueKeys_appendElem:
  assumes "uniqueKeys r" and "uniqueKeys v"
  shows "uniqueKeys (appendElem r a v)"
  unfolding appendElem_def using assms(1)
proof (rule uniqueKeys_modify)
  fix c assume "uniqueKeys c"
  with assms(2) show "uniqueKeys (case c of Array elems \<Rightarrow> Array (elems @ [v]) | _ \<Rightarrow> c)"
    by (cases c) simp_all
qed

lemma uniqueKeys_walkTables:
  "walkTables conflict r t parts = Inr (r', t') \<Longrightarrow> uniqueKeys r \<Longrightarrow> uniqueKeys r'"
proof (induction parts arbitrary: r t)
  case Nil
  then show ?case by simp
next
  case (Cons part rest)
  show ?case
  proof (cases "itemsAt r t")
    case None
    with Cons.prems show ?thesis by simp
  next
    case (Some items)
    show ?thesis
    proof (cases "map_of items part")
      case None
      with Some Cons.prems
      have "walkTables conflict (setItem r t part (Table [])) (t @ [Key part]) rest = Inr (r', t')"
        by simp
      moreover have "uniqueKeys (setItem r t part (Table []))"
        using Cons.prems(2) by (intro uniqueKeys_setItem) simp_all
      ultimately show ?thesis by (rule Cons.IH)
    next
      case (Some n)
      with \<open>itemsAt r t = Some items\<close> Cons.prems
      have "walkTables conflict r (t @ [Key part]) rest = Inr (r', t')"
        by (cases n) (simp_all split: if_splits)
      then show ?thesis using Cons.prems(2) by (rule Cons.IH)
    qed
  qed
qed

lemma uniqueKeys_parseStringForms: "parseStringForms s = Some (Inr v) \<Longrightarrow> uniqueKeys v"
  by (auto simp: parseStringForms_def split: if_splits option.splits sum.splits)

lemma uniqueKeys_parseScalar: "parseScalar L s = Inr v \<Longrightarrow> uniqueKeys v"
  by (auto simp: parseScalar_def parseLocalDateTimeVariants_def
      split: if_splits option.splits sum.splits)

lemma uniqueKeys_parseArrayElems:
  assumes "\<forall>p\<in>set parts. \<forall>v. parseValue L p = Inr v \<longrightarrow> uniqueKeys v"
    and "\<forall>e\<in>set elems. uniqueKeys e"
    and "parseArrayElems L parts elems ek = Inr out"
  shows "\<forall>e\<in>set out. uniqueKeys e"
  using assms
proof (induction parts arbitrary: elems ek)
  case Nil
  then show ?case by simp
next
  case (Cons part rest)
  from Cons.prems(1) have r: "\<forall>p\<in>set rest. \<forall>v. parseValue L p = Inr v \<longrightarrow> uniqueKeys v"
    by simp
  show ?case
  proof (cases "strings_TrimSpace part = []")
    case True
    with Cons.prems(3) have "parseArrayElems L rest elems ek = Inr out" by simp
    from Cons.IH [OF r Cons.prems(2) this] show ?thesis .
  next
    case False
    with Cons.prems(3) obtain v where v: "parseValue L part = Inr v"
      by (cases "parseValue L part") simp_all
    with Cons.prems(1) have uv: "uniqueKeys v" by simp
    with Cons.prems(2) have u: "\<forall>e\<in>set (elems @ [v]). uniqueKeys e" by simp
    from False v Cons.prems(3) obtain ek' where "parseArrayElems L rest (elems @ [v]) ek' = Inr out"
      by (cases "elems = []"; cases "Kind v = ek") auto
    from Cons.IH [OF r u this] show ?thesis .
  qed
qed

lemma uniqueKeys_parseInlinePairs:
  assumes "\<And>s v. length s \<le> n \<Longrightarrow> parseValue L s = Inr v \<Longrightarrow> uniqueKeys v"
    and "\<forall>p\<in>set pairs. length p \<le> n"
    and "uniqueKeys tbl"
    and "parseInlinePairs L pairs tbl = Inr out"
  shows "uniqueKeys out"
  using assms(2-)
proof (induction pairs arbitrary: tbl)
  case Nil
  then show ?case by simp
next
  case (Cons pr rest)
  from Cons.prems(1) have r: "\<forall>p\<in>set rest. length p \<le> n" and ln: "length pr \<le> n" by simp_all
  show ?case
  proof (cases "strings_TrimSpace pr = []")
    case True
    with Cons.prems(3) have "parseInlinePairs L rest tbl = Inr out" by (simp add: Let_def)
    from Cons.IH [OF r Cons.prems(2) this] show ?thesis .
  next
    case False
    let ?pair = "strings_TrimSpace pr"
    from False Cons.prems(3) obtain idx where idx: "findUnquotedEqual ?pair = Some idx"
      by (cases "findUnquotedEqual ?pair") (simp_all add: Let_def)
    let ?val = "strings_TrimSpace (drop (idx + 1) ?pair)"
    from False idx Cons.prems(3) obtain parts
      where parts: "parseKeyParts (strings_TrimSpace (take idx ?pair)) = Inr parts"
      by (cases "parseKeyParts (strings_TrimSpace (take idx ?pair))") (simp_all add: Let_def)
    from False idx parts Cons.prems(3) obtain t1 c
      where w: "walkTables inlineConflict tbl [] (butlast parts) = Inr (t1, c)"
      by (cases "walkTables inlineConflict tbl [] (butlast parts)") (auto simp: Let_def)
    from False idx parts w Cons.prems(3) obtain v
      where v: "parseValue L ?val = Inr v"
        and rec: "parseInlinePairs L rest (setItem t1 c (last parts) v) = Inr out"
      by (cases "parseValue L ?val")
         (auto simp: Let_def split: if_splits option.splits)
    have "length ?val \<le> length (drop (idx + 1) ?pair)" by (rule strings_TrimSpace_length)
    also have "\<dots> \<le> length ?pair" by simp
    also have "\<dots> \<le> length pr" by (rule strings_TrimSpace_length)
    finally have "length ?val \<le> n" using ln by simp
    from assms(1) [OF this v] have uv: "uniqueKeys v" .
    from w Cons.prems(2) have "uniqueKeys t1" by (rule uniqueKeys_walkTables)
    then have "uniqueKeys (setItem t1 c (last parts) v)" using uv by (rule uniqueKeys_setItem)
    from Cons.IH [OF r this rec] show ?thesis .
  qed
qed

lemma inner_parts_short:
  assumes "content \<noteq> []" and "length content \<le> n"
    and "p \<in> set (splitTopLevel (strings_TrimSpace (take (length content - 2) (drop 1 content))) sep)"
  shows "length p < n"
proof -
  from assms(3)
  have "length p \<le> length (strings_TrimSpace (take (length content - 2) (drop 1 content)))"
    by (rule splitTopLevel_length)
  also have "\<dots> \<le> length (take (length content - 2) (drop 1 content))"
    by (rule strings_TrimSpace_length)
  also have "\<dots> \<le> length content - 2" by simp
  also have "\<dots> < length content" using assms(1) by (cases content) simp_all
  finally show ?thesis using assms(2) by simp
qed

lemma uniqueKeys_parseArrayToken:
  assumes H: "\<And>p v. length p < length s \<Longrightarrow> parseValue L p = Inr v \<Longrightarrow> uniqueKeys v"
    and a: "parseArrayToken L s = Inr v"
  shows "uniqueKeys v"
proof -
  define content where "content = strings_TrimSpace (stripCommentPreserveStrings s)"
  define ps where
    "ps = splitTopLevel (strings_TrimSpace (take (length content - 2) (drop 1 content))) (CHR '','')"
  have lc: "length content \<le> length s" unfolding content_def by (rule trimmed_stripped_length)
  have "parseArrayToken L s =
      (if \<not> strings_HasPrefix content ''['' then Inl (Err (Text ''invalid array''))
       else if length content < 2 then Inl (Panic ''slice bounds out of range [1:0]'')
       else case parseArrayElems L ps [] [] of Inl e \<Rightarrow> Inl e | Inr elems \<Rightarrow> Inr (Array elems))"
    unfolding content_def ps_def by (simp only: parseArrayToken.simps Let_def)
  with a have c2: "\<not> length content < 2"
    and "(case parseArrayElems L ps [] [] of Inl e \<Rightarrow> Inl e | Inr elems \<Rightarrow> Inr (Array elems)) = Inr v"
    by (simp_all split: if_splits)
  then obtain elems where e: "parseArrayElems L ps [] [] = Inr elems" and v: "v = Array elems"
    by (cases "parseArrayElems L ps [] []") auto
  from c2 have ne: "content \<noteq> []" by auto
  have "\<forall>p\<in>set ps. \<forall>v. parseValue L p = Inr v \<longrightarrow> uniqueKeys v"
  proof (intro ballI allI impI)
    fix p w assume "p \<in> set ps" and w: "parseValue L p = Inr w"
    then have "length p < length s" unfolding ps_def using ne lc by (intro inner_parts_short)
    from H [OF this w] show "uniqueKeys w" .
  qed
  moreover have "\<forall>e\<in>set ([] :: node list). uniqueKeys e" by simp
  ultimately have "\<forall>e\<in>set elems. uniqueKeys e" using e by (rule uniqueKeys_parseArrayElems)
  with v show ?thesis by simp
qed

lemma uniqueKeys_parseInlineTableToken:
  assumes H: "\<And>p v. length p < length s \<Longrightarrow> parseValue L p = Inr v \<Longrightarrow> uniqueKeys v"
    and a: "parseInlineTableToken L s = Inr v"
  shows "uniqueKeys v"
proof -
  define content where "content = strings_TrimSpace (stripCommentPreserveStrings s)"
  define ps where
    "ps = splitTopLevel (strings_TrimSpace (take (length content - 2) (drop 1 content))) (CHR '','')"
  have lc: "length content \<le> length s" unfolding content_def by (rule trimmed_stripped_length)
  have "parseInlineTableToken L s =
      (if \<not> strings_HasPrefix content ''{'' \<or> \<not> strings_HasSuffix content ''}'' then
         Inl (Err (Text ''invalid inline table''))
       else parseInlinePairs L ps (Table []))"
    unfolding content_def ps_def by (simp only: parseInlineTableToken.simps Let_def)
  with a have pre: "strings_HasPrefix content ''{''"
    and pp: "parseInlinePairs L ps (Table []) = Inr v"
    by (simp_all split: if_splits)
  from pre have ne: "content \<noteq> []" by (rule strings_HasPrefix_nonempty)
  then have pos: "0 < length s" using lc by (cases content) auto
  have H': "\<And>p w. length p \<le> length s - 1 \<Longrightarrow> parseValue L p = Inr w \<Longrightarrow> uniqueKeys w"
  proof -
    fix p w assume "length p \<le> length s - 1" and w: "parseValue L p = Inr w"
    with pos have "length p < length s" by arith
    from H [OF this w] show "uniqueKeys w" .
  qed
  have short: "\<forall>p\<in>set ps. length p \<le> length s - 1"
  proof
    fix p assume "p \<in> set ps"
    then have "length p < length s" unfolding ps_def using ne lc by (intro inner_parts_short)
    then show "length p \<le> length s - 1" by simp
  qed
  have "uniqueKeys (Table [])" by simp
  from H' short this pp show ?thesis by (rule uniqueKeys_parseInlinePairs)
qed

lemma uniqueKeys_parseValue: "parseValue L s = Inr v \<Longrightarrow> uniqueKeys v"
proof (induction "length s" arbitrary: s v rule: less_induct)
  case less
  define x where "x = strings_TrimSpace (stripCommentPreserveStrings s)"
  have lx: "length x \<le> length s" unfolding x_def by (rule trimmed_stripped_length)
  have H: "\<And>p w. length p < length x \<Longrightarrow> parseValue L p = Inr w \<Longrightarrow> uniqueKeys w"
  proof -
    fix p w assume "length p < length x" and w: "parseValue L p = Inr w"
    with lx have "length p < length s" by simp
    from less.hyps [OF this w] show "uniqueKeys w" .
  qed
  have "parseValue L s =
     (if x = [] then Inl (Err (Text ''empty value''))
      else case parseStringForms x of
             Some r \<Rightarrow> r
           | None \<Rightarrow>
               if strings_HasPrefix x ''['' then parseArrayToken L x
               else if strings_HasPrefix x ''{'' then parseInlineTableToken L x
               else parseScalar L x)"
    unfolding x_def by (simp only: parseValue.simps Let_def)
  with less.prems have v: "(case parseStringForms x of
             Some r \<Rightarrow> r
           | None \<Rightarrow>
               if strings_HasPrefix x ''['' then parseArrayToken L x
               else if strings_HasPrefix x ''{'' then parseInlineTableToken L x
               else parseScalar L x) = Inr v"
    by (simp split: if_splits)
  show ?case
  proof (cases "parseStringForms x")
    case (Some res)
    with v have "parseStringForms x = Some (Inr v)" by simp
    then show ?thesis by (rule uniqueKeys_parseStringForms)
  next
    case None
    show ?thesis
    proof (cases "strings_HasPrefix x ''[''")
      case True
      with None v have "parseArrayToken L x = Inr v" by simp
      with H show ?thesis by (rule uniqueKeys_parseArrayToken)
    next
      case False
      show ?thesis
      proof (cases "strings_HasPrefix x ''{''")
        case True
        with False None v have "parseInlineTableToken L x = Inr v" by simp
        with H show ?thesis by (rule uniqueKeys_parseInlineTableToken)
      next
        case nb: False
        with False None v have "parseScalar L x = Inr v" by simp
        then show ?thesis by (rule uniqueKeys_parseScalar)
      qed
    qed
  qed
qed

lemma uniqueKeys_applyTableHeader:
  assumes "applyTableHeader p isArray parts = Inr p'" and u: "uniqueKeys (root p)"
  shows "uniqueKeys (root p')"
proof (cases isArray)
  case False
  with assms(1) obtain r t where w: "walkTables (notTable p) (root p) [] parts = Inr (r, t)"
    and p': "p' = p\<lparr>root := r, cur := t\<rparr>"
    by (auto simp: applyTableHeader_def split: sum.splits prod.splits)
  from uniqueKeys_walkTables [OF w u] p' show ?thesis by simp
next
  case True
  with assms(1) obtain r parent where
    w: "walkTables (notTable p) (root p) [] (butlast parts) = Inr (r, parent)"
    and d: "root p' = appendElem (setItem r parent (last parts) (Array [])) (parent @ [Key (last parts)]) (Table [])
            \<or> root p' = appendElem r (parent @ [Key (last parts)]) (Table [])"
    by (auto simp: applyTableHeader_def
        split: if_splits sum.splits prod.splits option.splits node.splits)
  from uniqueKeys_walkTables [OF w u] have r: "uniqueKeys r" .
  have e: "uniqueKeys (Table [])" and a: "uniqueKeys (Array [])" by simp_all
  from uniqueKeys_setItem [OF r a] have "uniqueKeys (setItem r parent (last parts) (Array []))" .
  from uniqueKeys_appendElem [OF this e] uniqueKeys_appendElem [OF r e] d
  show ?thesis by auto
qed

lemma uniqueKeys_parseTableHeader:
  assumes "parseTableHeader p line = Inr p'" and "uniqueKeys (root p)"
  shows "uniqueKeys (root p')"
proof -
  from assms(1) obtain isArray parts where "applyTableHeader p isArray parts = Inr p'"
    by (auto simp: parseTableHeader_def Let_def split: if_splits sum.splits)
  from uniqueKeys_applyTableHeader [OF this assms(2)] show ?thesis .
qed

lemma uniqueKeys_applyKeyValue:
  assumes "applyKeyValue L p parts val = Inr p'" and u: "uniqueKeys (root p)"
  shows "uniqueKeys (root p')"
proof (cases "walkTables (notTable p) (root p) (cur p) (butlast parts)")
  case (Inl f)
  with assms(1) show ?thesis by (simp add: applyKeyValue_def)
next
  case (Inr rt)
  obtain r t where rt: "rt = (r, t)" by (cases rt)
  obtain res p1 where c: "consumeValue p val = (res, p1)" by (cases "consumeValue p val")
  from assms(1) Inr rt c obtain fullVal v where "parseValue L fullVal = Inr v"
    and p': "root p' = setItem r t (last parts) v"
    by (auto simp: applyKeyValue_def split: if_splits option.splits sum.splits)
  then have v: "uniqueKeys v" by (intro uniqueKeys_parseValue)
  from Inr rt have "walkTables (notTable p) (root p) (cur p) (butlast parts) = Inr (r, t)" by simp
  from uniqueKeys_walkTables [OF this u] have "uniqueKeys r" .
  from uniqueKeys_setItem [OF this v] p' show ?thesis by simp
qed

lemma uniqueKeys_parseLine:
  assumes "parseLine L p raw = Some (Inr p')" and u: "uniqueKeys (root p)"
  shows "uniqueKeys (root p')"
proof (cases "strings_HasPrefix (strings_TrimSpace raw) ''[''")
  case True
  with assms(1) have "parseTableHeader p (strings_TrimSpace raw) = Inr p'"
    by (auto simp: parseLine_def Let_def split: if_splits)
  from uniqueKeys_parseTableHeader [OF this u] show ?thesis .
next
  case False
  with assms(1) obtain idx where "parseKeyValue L p (strings_TrimSpace raw) idx = Inr p'"
    by (auto simp: parseLine_def Let_def split: if_splits option.splits)
  then obtain parts val where "applyKeyValue L p parts val = Inr p'"
    by (auto simp: parseKeyValue_def split: sum.splits)
  from uniqueKeys_applyKeyValue [OF this u] show ?thesis .
qed

lemma uniqueKeys_Parse_loop:
  "uniqueKeys (root p) \<Longrightarrow> Parse_loop L p = Inr tree \<Longrightarrow> uniqueKeys tree"
proof (induction L p rule: Parse_loop.induct)
  case (1 L p)
  show ?case
  proof (cases "scanner p")
    case Nil
    with "1.prems" show ?thesis by (simp add: Parse_loop.simps [of L p])
  next
    case (Cons raw rest)
    let ?q = "p\<lparr>scanner := rest, lineNo := lineNo p + 1\<rparr>"
    have uq: "uniqueKeys (root ?q)" using "1.prems"(1) by simp
    show ?thesis
    proof (cases "parseLine L ?q raw")
      case None
      with Cons "1.prems"(2) have "Parse_loop L ?q = Inr tree"
        by (simp add: Parse_loop.simps [of L p])
      from "1.IH"(1) [OF Cons None uq this] show ?thesis .
    next
      case (Some res)
      show ?thesis
      proof (cases res)
        case (Inl e)
        with Some Cons "1.prems"(2) show ?thesis by (simp add: Parse_loop.simps [of L p])
      next
        case (Inr p')
        with Some Cons "1.prems"(2) have run: "Parse_loop L p' = Inr tree"
          by (simp add: Parse_loop.simps [of L p])
        from Some Inr have "parseLine L ?q raw = Some (Inr p')" by simp
        from uniqueKeys_parseLine [OF this uq] have "uniqueKeys (root p')" .
        from "1.IH"(2) [OF Cons Some Inr this run] show ?thesis .
      qed
    qed
  qed
qed

lemma uniqueKeys_Parse:
  assumes "Parse L lines = Inr tree"
  shows "uniqueKeys tree"
proof -
  let ?p = "\<lparr>scanner = lines, root = Table [], cur = [], lineNo = 0\<rparr>"
  have "uniqueKeys (root ?p)" by simp
  moreover from assms have "Parse_loop L ?p = Inr tree" by (simp add: Parse_def)
  ultimately show ?thesis by (rule uniqueKeys_Parse_loop)
qed

lemma parseInlinePairs_success:
  assumes "strings_TrimSpace pr \<noteq> []" and "parseInlinePairs L (pr # rest) tbl = Inr out"
  shows "\<exists>idx parts r t items v.
           findUnquotedEqual (strings_TrimSpace pr) = Some idx
         \<and> parseKeyParts (strings_TrimSpace (take idx (strings_TrimSpace pr))) = Inr parts
         \<and> walkTables inlineConflict tbl [] (butlast parts) = Inr (r, t)
         \<and> parts \<noteq> [] \<and> itemsAt r t = Some items \<and> map_of items (last parts) = None
         \<and> parseValue L (strings_TrimSpace (drop (idx + 1) (strings_TrimSpace pr))) = Inr v
         \<and> parseInlinePairs L rest (setItem r t (last parts) v) = Inr out"
  using assms
  by (auto simp: Let_def split: if_splits option.splits sum.splits prod.splits)

lemma applyKeyValue_success:
  assumes "applyKeyValue L p parts val = Inr p'"
  shows "\<exists>r t items v. walkTables (notTable p) (root p) (cur p) (butlast parts) = Inr (r, t)
           \<and> parts \<noteq> [] \<and> itemsAt r t = Some items \<and> map_of items (last parts) = None
           \<and> root p' = setItem r t (last parts) v"
proof (cases "walkTables (notTable p) (root p) (cur p) (butlast parts)")
  case (Inl f)
  with assms show ?thesis by (simp add: applyKeyValue_def)
next
  case (Inr rt)
  obtain r t where rt: "rt = (r, t)" by (cases rt)
  obtain res p1 where c: "consumeValue p val = (res, p1)" by (cases "consumeValue p val")
  from assms Inr rt c show ?thesis
    by (auto simp: applyKeyValue_def split: if_splits option.splits sum.splits)
qed

text \<open>
  Claim C2: for every table (the current table of a key/value line, or the fresh table
  of an inline-table token), binding a final key segment that is already bound in that
  table is a hard parse error (duplicate key) and never silently overwrites the existing
  binding; hence within a single Table every key segment is bound at most once.

  The table is the one that the walk along the segments before the last has reached.
  When the last segment is bound there, a key/value line fails with \<open>duplicate key\<close> and
  the line number, and a pair of an inline table with \<open>duplicate inline table key\<close>. When
  a key/value line succeeds, the last segment was unbound in that table, and the items
  of the table are afterwards the items before, unchanged, with the new binding added;
  keys that were pairwise distinct stay so. When a pair of an inline table is accepted,
  its last segment was unbound as well, the items of the table reached are the items
  before with the new binding added, and the remaining pairs go on from that table. In
  the tree that a parse returns, and in every value that the decoder returns, each table
  has one pair for a key.
\<close>

theorem duplicate_key_is_an_error:
  "(walkTables (notTable p) (root p) (cur p) (butlast parts) = Inr (r, t) \<and> parts \<noteq> []
      \<and> itemsAt r t = Some items \<and> map_of items (last parts) = Some n \<longrightarrow>
      applyKeyValue L p parts val = Inl (errf p (DuplicateKey (last parts))))
   \<and> (strings_TrimSpace pr \<noteq> [] \<and> findUnquotedEqual (strings_TrimSpace pr) = Some idx
      \<and> parseKeyParts (strings_TrimSpace (take idx (strings_TrimSpace pr))) = Inr parts
      \<and> parts \<noteq> [] \<and> walkTables inlineConflict tbl [] (butlast parts) = Inr (r, t)
      \<and> itemsAt r t = Some items \<and> map_of items (last parts) = Some n \<longrightarrow>
      parseInlinePairs L (pr # rest) tbl = Inl (Err (Text ''duplicate inline table key'')))
   \<and> (applyKeyValue L p parts val = Inr p' \<longrightarrow>
      (\<exists>r t items v. walkTables (notTable p) (root p) (cur p) (butlast parts) = Inr (r, t)
         \<and> itemsAt r t = Some items \<and> map_of items (last parts) = None
         \<and> root p' = setItem r t (last parts) v
         \<and> itemsAt (root p') t = Some (items @ [(last parts, v)])
         \<and> (distinct (map fst items) \<longrightarrow> distinct (map fst (items @ [(last parts, v)])))))
   \<and> (strings_TrimSpace pr \<noteq> [] \<and> parseInlinePairs L (pr # rest) tbl = Inr out \<longrightarrow>
      (\<exists>idx parts r t items v.
           findUnquotedEqual (strings_TrimSpace pr) = Some idx
         \<and> parseKeyParts (strings_TrimSpace (take idx (strings_TrimSpace pr))) = Inr parts
         \<and> walkTables inlineConflict tbl [] (butlast parts) = Inr (r, t)
         \<and> itemsAt r t = Some items \<and> map_of items (last parts) = None
         \<and> itemsAt (setItem r t (last parts) v) t = Some (items @ [(last parts, v)])
         \<and> parseInlinePairs L rest (setItem r t (last parts) v) = Inr out))
   \<and> (Parse L lines = Inr tree \<longrightarrow> uniqueKeys tree)
   \<and> (parseValue L s = Inr w \<longrightarrow> uniqueKeys w)"
proof (intro conjI impI)
  assume "walkTables (notTable p) (root p) (cur p) (butlast parts) = Inr (r, t) \<and> parts \<noteq> []
      \<and> itemsAt r t = Some items \<and> map_of items (last parts) = Some n"
  then show "applyKeyValue L p parts val = Inl (errf p (DuplicateKey (last parts)))"
    by (simp add: applyKeyValue_def)
next
  assume "strings_TrimSpace pr \<noteq> [] \<and> findUnquotedEqual (strings_TrimSpace pr) = Some idx
      \<and> parseKeyParts (strings_TrimSpace (take idx (strings_TrimSpace pr))) = Inr parts
      \<and> parts \<noteq> [] \<and> walkTables inlineConflict tbl [] (butlast parts) = Inr (r, t)
      \<and> itemsAt r t = Some items \<and> map_of items (last parts) = Some n"
  then show "parseInlinePairs L (pr # rest) tbl = Inl (Err (Text ''duplicate inline table key''))"
    by (simp add: Let_def)
next
  assume "applyKeyValue L p parts val = Inr p'"
  from applyKeyValue_success [OF this]
  obtain r t items v where w: "walkTables (notTable p) (root p) (cur p) (butlast parts) = Inr (r, t)"
    and i: "itemsAt r t = Some items" and m: "map_of items (last parts) = None"
    and r: "root p' = setItem r t (last parts) v"
    by blast
  from itemsAt_setItem [OF i, of "last parts" v] m r
  have a: "itemsAt (root p') t = Some (items @ [(last parts, v)])"
    by (simp add: setKey_fresh)
  from m have "last parts \<notin> fst ` set items" by (simp add: map_of_eq_None_iff)
  then have d: "distinct (map fst items) \<longrightarrow> distinct (map fst (items @ [(last parts, v)]))"
    by simp
  from w i m r a d
  show "\<exists>r t items v. walkTables (notTable p) (root p) (cur p) (butlast parts) = Inr (r, t)
         \<and> itemsAt r t = Some items \<and> map_of items (last parts) = None
         \<and> root p' = setItem r t (last parts) v
         \<and> itemsAt (root p') t = Some (items @ [(last parts, v)])
         \<and> (distinct (map fst items) \<longrightarrow> distinct (map fst (items @ [(last parts, v)])))"
    by blast
next
  assume "strings_TrimSpace pr \<noteq> [] \<and> parseInlinePairs L (pr # rest) tbl = Inr out"
  then have "strings_TrimSpace pr \<noteq> []" and "parseInlinePairs L (pr # rest) tbl = Inr out"
    by simp_all
  from parseInlinePairs_success [OF this]
  obtain idx parts r t items v where
    f: "findUnquotedEqual (strings_TrimSpace pr) = Some idx"
    and k: "parseKeyParts (strings_TrimSpace (take idx (strings_TrimSpace pr))) = Inr parts"
    and w: "walkTables inlineConflict tbl [] (butlast parts) = Inr (r, t)"
    and i: "itemsAt r t = Some items" and m: "map_of items (last parts) = None"
    and c: "parseInlinePairs L rest (setItem r t (last parts) v) = Inr out"
    by blast
  from itemsAt_setItem [OF i, of "last parts" v] m
  have a: "itemsAt (setItem r t (last parts) v) t = Some (items @ [(last parts, v)])"
    by (simp add: setKey_fresh)
  from f k w i m a c
  show "\<exists>idx parts r t items v.
           findUnquotedEqual (strings_TrimSpace pr) = Some idx
         \<and> parseKeyParts (strings_TrimSpace (take idx (strings_TrimSpace pr))) = Inr parts
         \<and> walkTables inlineConflict tbl [] (butlast parts) = Inr (r, t)
         \<and> itemsAt r t = Some items \<and> map_of items (last parts) = None
         \<and> itemsAt (setItem r t (last parts) v) t = Some (items @ [(last parts, v)])
         \<and> parseInlinePairs L rest (setItem r t (last parts) v) = Inr out"
    by blast
next
  assume "Parse L lines = Inr tree"
  then show "uniqueKeys tree" by (rule uniqueKeys_Parse)
next
  assume "parseValue L s = Inr w"
  then show "uniqueKeys w" by (rule uniqueKeys_parseValue)
qed

theorem duplicate_key_is_an_error_witness:
  "applyKeyValue rejectAll
       \<lparr>scanner = [], root = Table [(''sku'', Value ValueInt (PInt 738594937))], cur = [], lineNo = 2\<rparr>
       [''sku''] ''1''
     = Inl (Err (At 2 (DuplicateKey ''sku'')))
   \<and> parseInlinePairs rejectAll [''a = 2''] (Table [(''a'', Value ValueInt (PInt 1))])
     = Inl (Err (Text ''duplicate inline table key''))
   \<and> parseValue rejectAll ''{ a = 1, a = 2 }'' = Inl (Err (Text ''duplicate inline table key''))
   \<and> applyKeyValue rejectAll
       \<lparr>scanner = [], root = Table [(''sku'', Value ValueInt (PInt 1))], cur = [], lineNo = 2\<rparr>
       [''name''] ''2''
     = Inr \<lparr>scanner = [], root = Table [(''sku'', Value ValueInt (PInt 1)), (''name'', Value ValueInt (PInt 2))],
            cur = [], lineNo = 2\<rparr>
   \<and> (\<exists>r t items v. itemsAt r t = Some items \<and> map_of items (last [''name'']) = None
        \<and> itemsAt (Table [(''sku'', Value ValueInt (PInt 1)), (''name'', Value ValueInt (PInt 2))]) t
            = Some (items @ [(last [''name''], v)]))
   \<and> parseInlinePairs rejectAll [''b = 2''] (Table [(''a'', Value ValueInt (PInt 1))])
     = Inr (Table [(''a'', Value ValueInt (PInt 1)), (''b'', Value ValueInt (PInt 2))])
   \<and> (\<exists>idx parts r t items v.
           findUnquotedEqual (strings_TrimSpace ''b = 2'') = Some idx
         \<and> parseKeyParts (strings_TrimSpace (take idx (strings_TrimSpace ''b = 2''))) = Inr parts
         \<and> walkTables inlineConflict (Table [(''a'', Value ValueInt (PInt 1))]) [] (butlast parts) = Inr (r, t)
         \<and> itemsAt r t = Some items \<and> map_of items (last parts) = None
         \<and> itemsAt (setItem r t (last parts) v) t = Some (items @ [(last parts, v)]))
   \<and> Parse rejectAll [''a = 1'', ''b = { c = 1, d = 2 }'']
     = Inr (Table [(''a'', Value ValueInt (PInt 1)),
                   (''b'', Table [(''c'', Value ValueInt (PInt 1)), (''d'', Value ValueInt (PInt 2))])])
   \<and> uniqueKeys (Table [(''a'', Value ValueInt (PInt 1)),
                   (''b'', Table [(''c'', Value ValueInt (PInt 1)), (''d'', Value ValueInt (PInt 2))])])
   \<and> Parse rejectAll [''a = 1'', ''a = 2''] = Inl (Err (At 2 (DuplicateKey ''a'')))"
proof -
  let ?r = "Table [(''sku'', Value ValueInt (PInt 738594937))]"
  let ?p = "\<lparr>scanner = [], root = ?r, cur = [], lineNo = 2\<rparr>"
  let ?n = "Value ValueInt (PInt 738594937)"
  note A = duplicate_key_is_an_error
    [where p = ?p and parts = "[''sku'']" and r = ?r and t = "[]" and items = "[(''sku'', ?n)]"
       and n = ?n and L = rejectAll and val = "''1''", THEN conjunct1]
  have A1: "walkTables (notTable ?p) (root ?p) (cur ?p) (butlast [''sku'']) = Inr (?r, []) \<and> [''sku''] \<noteq> []
      \<and> itemsAt ?r [] = Some [(''sku'', ?n)] \<and> map_of [(''sku'', ?n)] (last [''sku'']) = Some ?n"
    by (simp add: itemsAt_def)
  from A A1 have a: "applyKeyValue rejectAll ?p [''sku''] ''1'' = Inl (errf ?p (DuplicateKey (last [''sku''])))"
    by blast

  let ?tbl = "Table [(''a'', Value ValueInt (PInt 1))]"
  note B = duplicate_key_is_an_error
    [where pr = "''a = 2''" and idx = 2 and parts = "[''a'']" and tbl = ?tbl and r = ?tbl
       and t = "[]" and items = "[(''a'', Value ValueInt (PInt 1))]" and n = "Value ValueInt (PInt 1)"
       and L = rejectAll and rest = "[]", THEN conjunct2, THEN conjunct1]
  have B1: "strings_TrimSpace ''a = 2'' \<noteq> [] \<and> findUnquotedEqual (strings_TrimSpace ''a = 2'') = Some 2
      \<and> parseKeyParts (strings_TrimSpace (take 2 (strings_TrimSpace ''a = 2''))) = Inr [''a'']"
    by code_simp
  have B2: "[''a''] \<noteq> [] \<and> walkTables inlineConflict ?tbl [] (butlast [''a'']) = Inr (?tbl, [])
      \<and> itemsAt ?tbl [] = Some [(''a'', Value ValueInt (PInt 1))]
      \<and> map_of [(''a'', Value ValueInt (PInt 1))] (last [''a'']) = Some (Value ValueInt (PInt 1))"
    by (simp add: itemsAt_def)
  from B B1 B2
  have b: "parseInlinePairs rejectAll [''a = 2''] ?tbl = Inl (Err (Text ''duplicate inline table key''))"
    by blast
  have b': "parseValue rejectAll ''{ a = 1, a = 2 }'' = Inl (Err (Text ''duplicate inline table key''))"
    by code_simp

  let ?q = "\<lparr>scanner = [], root = Table [(''sku'', Value ValueInt (PInt 1))], cur = [], lineNo = 2\<rparr>"
  let ?q' = "\<lparr>scanner = [], root = Table [(''sku'', Value ValueInt (PInt 1)), (''name'', Value ValueInt (PInt 2))],
            cur = [], lineNo = 2\<rparr>"
  note C = duplicate_key_is_an_error
    [where p = ?q and parts = "[''name'']" and L = rejectAll and val = "''2''" and p' = ?q',
       THEN conjunct2, THEN conjunct2, THEN conjunct1]
  have C1: "applyKeyValue rejectAll ?q [''name''] ''2'' = Inr ?q'" by code_simp
  from C C1
  have c: "\<exists>r t items v. itemsAt r t = Some items \<and> map_of items (last [''name'']) = None
        \<and> itemsAt (root ?q') t = Some (items @ [(last [''name''], v)])"
    by blast

  let ?out = "Table [(''a'', Value ValueInt (PInt 1)), (''b'', Value ValueInt (PInt 2))]"
  note D = duplicate_key_is_an_error
    [where pr = "''b = 2''" and rest = "[]" and tbl = ?tbl and L = rejectAll and out = ?out,
       THEN conjunct2, THEN conjunct2, THEN conjunct2, THEN conjunct1]
  have D1: "strings_TrimSpace ''b = 2'' \<noteq> []" by code_simp
  have D2: "parseInlinePairs rejectAll [''b = 2''] ?tbl = Inr ?out" by code_simp
  from D D1 D2
  have d: "\<exists>idx parts r t items v.
           findUnquotedEqual (strings_TrimSpace ''b = 2'') = Some idx
         \<and> parseKeyParts (strings_TrimSpace (take idx (strings_TrimSpace ''b = 2''))) = Inr parts
         \<and> walkTables inlineConflict ?tbl [] (butlast parts) = Inr (r, t)
         \<and> itemsAt r t = Some items \<and> map_of items (last parts) = None
         \<and> itemsAt (setItem r t (last parts) v) t = Some (items @ [(last parts, v)])"
    by blast

  let ?tree = "Table [(''a'', Value ValueInt (PInt 1)),
                   (''b'', Table [(''c'', Value ValueInt (PInt 1)), (''d'', Value ValueInt (PInt 2))])]"
  note E = duplicate_key_is_an_error
    [where L = rejectAll and lines = "[''a = 1'', ''b = { c = 1, d = 2 }'']" and tree = ?tree,
       THEN conjunct2, THEN conjunct2, THEN conjunct2, THEN conjunct2, THEN conjunct1]
  have E1: "Parse rejectAll [''a = 1'', ''b = { c = 1, d = 2 }''] = Inr ?tree" by code_simp
  from E E1 have e: "uniqueKeys ?tree" by blast
  have e': "Parse rejectAll [''a = 1'', ''a = 2''] = Inl (Err (At 2 (DuplicateKey ''a'')))"
    by code_simp
  from a b b' C1 c have 1: "applyKeyValue rejectAll ?p [''sku''] ''1'' = Inl (Err (At 2 (DuplicateKey ''sku'')))
     \<and> parseInlinePairs rejectAll [''a = 2''] ?tbl = Inl (Err (Text ''duplicate inline table key''))
     \<and> parseValue rejectAll ''{ a = 1, a = 2 }'' = Inl (Err (Text ''duplicate inline table key''))
     \<and> applyKeyValue rejectAll ?q [''name''] ''2'' = Inr ?q'
     \<and> (\<exists>r t items v. itemsAt r t = Some items \<and> map_of items (last [''name'']) = None
        \<and> itemsAt (Table [(''sku'', Value ValueInt (PInt 1)), (''name'', Value ValueInt (PInt 2))]) t
            = Some (items @ [(last [''name''], v)]))"
    by (simp add: errf_def)
  from 1 D2 d E1 e e' show ?thesis by blast
qed

subsection \<open>C4: array-of-tables headers\<close>




subsection \<open>C7: quoted keys\<close>

text \<open>
  Claim C7: parsing a document containing the line \<open>"a.b" = 1\<close> binds a single key
  segment literally named \<open>a.b\<close> in the current table, distinct from the two-segment path
  \<open>a\<close>, \<open>b\<close> that the unquoted \<open>a.b = 2\<close> produces; and after parsing a document with both
  lines each value is retrievable on its own, the quoted one by the single segment
  \<open>a.b\<close> and the dotted one by the segments \<open>a\<close> and \<open>b\<close>.

  The library is any that rejects as a date or time a text without \<open>-\<close> and \<open>:\<close>. The
  quoted line is read in any state \<open>p\<close> whose current table exists and has no item \<open>a.b\<close>:
  the items of that table are then the items before and the one new binding, and the
  state is otherwise unchanged. The document has the two lines in either order.
\<close>

theorem quoted_key_is_one_segment:
  "parseKeyParts ([DQ] @ ''a.b'' @ [DQ]) = Inr [''a.b'']
   \<and> parseKeyParts ''a.b'' = Inr [''a'', ''b'']
   \<and> (separatorsNeeded L \<and> itemsAt (root p) (cur p) = Some items \<and> map_of items ''a.b'' = None \<longrightarrow>
        parseLine L p ([DQ] @ ''a.b'' @ [DQ] @ '' = 1'')
          = Some (Inr (p\<lparr>root := setItem (root p) (cur p) ''a.b'' (Value ValueInt (PInt 1))\<rparr>))
        \<and> itemsAt (setItem (root p) (cur p) ''a.b'' (Value ValueInt (PInt 1))) (cur p)
          = Some (items @ [(''a.b'', Value ValueInt (PInt 1))]))
   \<and> (separatorsNeeded L \<longrightarrow>
        (\<exists>tree. Parse L [[DQ] @ ''a.b'' @ [DQ] @ '' = 1'', ''a.b = 2''] = Inr tree
           \<and> Get tree [''a.b''] = Some (Value ValueInt (PInt 1))
           \<and> Get tree [''a'', ''b''] = Some (Value ValueInt (PInt 2)))
        \<and> (\<exists>tree. Parse L [''a.b = 2'', [DQ] @ ''a.b'' @ [DQ] @ '' = 1''] = Inr tree
           \<and> Get tree [''a.b''] = Some (Value ValueInt (PInt 1))
           \<and> Get tree [''a'', ''b''] = Some (Value ValueInt (PInt 2))))"
proof (intro conjI impI)
  show "parseKeyParts ([DQ] @ ''a.b'' @ [DQ]) = Inr [''a.b'']" by code_simp
  show "parseKeyParts ''a.b'' = Inr [''a'', ''b'']" by code_simp
next
  assume h: "separatorsNeeded L \<and> itemsAt (root p) (cur p) = Some items \<and> map_of items ''a.b'' = None"
  then have g: "guarded L = L" by (simp add: separatorsNeeded_guarded)
  let ?raw = "[DQ] @ ''a.b'' @ [DQ] @ '' = 1''"
  have t: "strings_TrimSpace ?raw = ?raw" by code_simp
  have np: "\<not> strings_HasPrefix ?raw ''#''" "\<not> strings_HasPrefix ?raw ''[''" "?raw \<noteq> []"
    by (simp_all add: strings_HasPrefix_def)
  have f: "findUnquotedEqual ?raw = Some 6" by code_simp
  have k: "parseKeyParts (strings_TrimSpace (take 6 ?raw)) = Inr [''a.b'']" by code_simp
  have v: "strings_TrimSpace (drop (6 + 1) ?raw) = ''1''" by code_simp
  have c: "consumeValue p ''1'' = (Inr ''1'', p)" by code_simp
  have "parseValue (guarded L) ''1'' = Inr (Value ValueInt (PInt 1))" by code_simp
  with g have pv: "parseValue L ''1'' = Inr (Value ValueInt (PInt 1))" by simp
  from h have a: "applyKeyValue L p [''a.b''] ''1''
      = Inr (p\<lparr>root := setItem (root p) (cur p) ''a.b'' (Value ValueInt (PInt 1))\<rparr>)"
    by (simp add: applyKeyValue_def c pv)
  have "parseKeyValue L p ?raw 6
      = Inr (p\<lparr>root := setItem (root p) (cur p) ''a.b'' (Value ValueInt (PInt 1))\<rparr>)"
    unfolding parseKeyValue_def k v using a by simp
  then show "parseLine L p ?raw
      = Some (Inr (p\<lparr>root := setItem (root p) (cur p) ''a.b'' (Value ValueInt (PInt 1))\<rparr>))"
    unfolding parseLine_def Let_def t using np f by simp
  from h have i: "itemsAt (root p) (cur p) = Some items" and m: "map_of items ''a.b'' = None"
    by blast+
  from itemsAt_setItem [OF i, of "''a.b''" "Value ValueInt (PInt 1)"] m
  show "itemsAt (setItem (root p) (cur p) ''a.b'' (Value ValueInt (PInt 1))) (cur p)
          = Some (items @ [(''a.b'', Value ValueInt (PInt 1))])"
    by (simp add: setKey_fresh)
next
  assume "separatorsNeeded L"
  then have g: "guarded L = L" by (rule separatorsNeeded_guarded)
  let ?t = "Table [(''a.b'', Value ValueInt (PInt 1)), (''a'', Table [(''b'', Value ValueInt (PInt 2))])]"
  have "Parse (guarded L) [[DQ] @ ''a.b'' @ [DQ] @ '' = 1'', ''a.b = 2''] = Inr ?t" by code_simp
  with g have 1: "Parse L [[DQ] @ ''a.b'' @ [DQ] @ '' = 1'', ''a.b = 2''] = Inr ?t" by simp
  have 2: "Get ?t [''a.b''] = Some (Value ValueInt (PInt 1))" by simp
  have 3: "Get ?t [''a'', ''b''] = Some (Value ValueInt (PInt 2))" by simp
  from 1 2 3
  show "\<exists>tree. Parse L [[DQ] @ ''a.b'' @ [DQ] @ '' = 1'', ''a.b = 2''] = Inr tree
           \<and> Get tree [''a.b''] = Some (Value ValueInt (PInt 1))
           \<and> Get tree [''a'', ''b''] = Some (Value ValueInt (PInt 2))"
    by blast
next
  assume "separatorsNeeded L"
  then have g: "guarded L = L" by (rule separatorsNeeded_guarded)
  let ?t = "Table [(''a'', Table [(''b'', Value ValueInt (PInt 2))]), (''a.b'', Value ValueInt (PInt 1))]"
  have "Parse (guarded L) [''a.b = 2'', [DQ] @ ''a.b'' @ [DQ] @ '' = 1''] = Inr ?t" by code_simp
  with g have 1: "Parse L [''a.b = 2'', [DQ] @ ''a.b'' @ [DQ] @ '' = 1''] = Inr ?t" by simp
  have 2: "Get ?t [''a.b''] = Some (Value ValueInt (PInt 1))" by simp
  have 3: "Get ?t [''a'', ''b''] = Some (Value ValueInt (PInt 2))" by simp
  from 1 2 3
  show "\<exists>tree. Parse L [''a.b = 2'', [DQ] @ ''a.b'' @ [DQ] @ '' = 1''] = Inr tree
           \<and> Get tree [''a.b''] = Some (Value ValueInt (PInt 1))
           \<and> Get tree [''a'', ''b''] = Some (Value ValueInt (PInt 2))"
    by blast
qed

theorem quoted_key_is_one_segment_witness:
  "separatorsNeeded rejectAll
   \<and> itemsAt (root \<lparr>scanner = [''a.b = 2''], root = Table [], cur = [], lineNo = 1\<rparr>)
        (cur \<lparr>scanner = [''a.b = 2''], root = Table [], cur = [], lineNo = 1\<rparr>) = Some []
   \<and> parseLine rejectAll \<lparr>scanner = [''a.b = 2''], root = Table [], cur = [], lineNo = 1\<rparr>
        ([DQ] @ ''a.b'' @ [DQ] @ '' = 1'')
     = Some (Inr \<lparr>scanner = [''a.b = 2''], root = Table [(''a.b'', Value ValueInt (PInt 1))],
                  cur = [], lineNo = 1\<rparr>)
   \<and> (\<exists>tree. Parse rejectAll [[DQ] @ ''a.b'' @ [DQ] @ '' = 1'', ''a.b = 2''] = Inr tree
        \<and> Get tree [''a.b''] = Some (Value ValueInt (PInt 1))
        \<and> Get tree [''a'', ''b''] = Some (Value ValueInt (PInt 2)))"
proof -
  let ?p = "\<lparr>scanner = [''a.b = 2''], root = Table [], cur = [], lineNo = 1\<rparr>"
  note T = quoted_key_is_one_segment [where L = rejectAll and p = ?p and items = "[]"]
  have i: "itemsAt (root ?p) (cur ?p) = Some [] \<and> map_of ([] :: (string \<times> node) list) ''a.b'' = None"
    by (simp add: itemsAt_def)
  from T separatorsNeeded_rejectAll i
  have a: "parseLine rejectAll ?p ([DQ] @ ''a.b'' @ [DQ] @ '' = 1'')
      = Some (Inr (?p\<lparr>root := setItem (root ?p) (cur ?p) ''a.b'' (Value ValueInt (PInt 1))\<rparr>))"
    by blast
  have s: "?p\<lparr>root := setItem (root ?p) (cur ?p) ''a.b'' (Value ValueInt (PInt 1))\<rparr>
      = \<lparr>scanner = [''a.b = 2''], root = Table [(''a.b'', Value ValueInt (PInt 1))], cur = [], lineNo = 1\<rparr>"
    by (simp add: setItem_def)
  from T separatorsNeeded_rejectAll
  have b: "\<exists>tree. Parse rejectAll [[DQ] @ ''a.b'' @ [DQ] @ '' = 1'', ''a.b = 2''] = Inr tree
        \<and> Get tree [''a.b''] = Some (Value ValueInt (PInt 1))
        \<and> Get tree [''a'', ''b''] = Some (Value ValueInt (PInt 2))"
    by blast
  from separatorsNeeded_rejectAll i a [unfolded s] b show ?thesis by blast
qed

end
